theory Spec2Isabelle
  imports Complex_Main "HOL-Library.Multiset"
begin

section \<open>Time values and calendar arithmetic of the runtime (ECMA-262, Date objects)\<close>

text \<open>
  The route handler builds and reads \<^verbatim>\<open>Date\<close> objects. A valid date is a time value:
  an integer number of milliseconds since 1970-01-01T00:00:00 UTC. The abstract operations
  below are those of the language standard, over \<open>int\<close> (whose \<open>div\<close> and \<open>mod\<close> round
  towards minus infinity, as the standard's \<open>floor\<close> and \<open>modulo\<close> do).
\<close>

definition msPerDay :: int where "msPerDay = 86400000"
definition msPerHour :: int where "msPerHour = 3600000"
definition msPerMinute :: int where "msPerMinute = 60000"
definition msPerSecond :: int where "msPerSecond = 1000"

definition Day :: "int \<Rightarrow> int" where
  "Day t = t div msPerDay"

definition DaysInYear :: "int \<Rightarrow> int" where
  "DaysInYear y =
     (if y mod 4 \<noteq> 0 then 365
      else if y mod 100 \<noteq> 0 then 366
      else if y mod 400 \<noteq> 0 then 365
      else 366)"

definition DayFromYear :: "int \<Rightarrow> int" where
  "DayFromYear y =
     365 * (y - 1970) + (y - 1969) div 4 - (y - 1901) div 100 + (y - 1601) div 400"

lemma div_succ_dvd:
  fixes a k :: int
  assumes k: "1 < k"
  shows "(a + 1) div k = a div k + (if k dvd (a + 1) then 1 else 0)"
proof -
  define q where "q = a div k"
  define r where "r = a mod k"
  have a: "a = k * q + r" by (simp add: q_def r_def)
  have r: "0 \<le> r" "r < k" using k by (simp_all add: r_def)
  show ?thesis
  proof (cases "r = k - 1")
    case True
    have e: "a + 1 = k * (q + 1)" using a True by (simp add: algebra_simps)
    then have "(a + 1) div k = q + 1" using k by simp
    moreover have "k dvd (a + 1)" using e by simp
    ultimately show ?thesis by (simp add: q_def)
  next
    case False
    have e: "a + 1 = k * q + (r + 1)" using a by simp
    have b: "0 \<le> r + 1" "r + 1 < k" using r False by auto
    from e b have "(a + 1) div k = q" by (rule int_div_pos_eq)
    moreover have "(a + 1) mod k = r + 1" using e b by (rule int_mod_pos_eq)
    then have "\<not> k dvd (a + 1)" using b r by (simp add: dvd_eq_mod_eq_0)
    ultimately show ?thesis by (simp add: q_def)
  qed
qed

lemma DaysInYear_dvd:
  "DaysInYear y = 365 + (if 4 dvd y then 1 else 0) - (if 100 dvd y then 1 else 0)
                      + (if 400 dvd y then 1 else 0)"
proof -
  have "(4::int) dvd 100" "(100::int) dvd 400" by simp_all
  then have a: "100 dvd y \<Longrightarrow> 4 dvd y" and b: "400 dvd y \<Longrightarrow> 100 dvd y"
    by (blast intro: dvd_trans)+
  show ?thesis
  proof (cases "4 dvd y")
    case False
    with a b show ?thesis by (auto simp add: DaysInYear_def mod_eq_0_iff_dvd)
  next
    case True
    note t = this
    show ?thesis
    proof (cases "100 dvd y")
      case False
      with t b show ?thesis by (auto simp add: DaysInYear_def mod_eq_0_iff_dvd)
    next
      case True
      with t show ?thesis by (simp add: DaysInYear_def mod_eq_0_iff_dvd)
    qed
  qed
qed

lemma DayFromYear_step: "DayFromYear (y + 1) = DayFromYear y + DaysInYear y"
proof -
  have a: "(y + 1 - 1969) div 4 = (y - 1969) div 4 + (if 4 dvd y then 1 else 0)"
  proof -
    have "(y + 1 - 1969) = (y - 1969) + 1" by simp
    moreover have "4 dvd (y - 1969 + 1) \<longleftrightarrow> 4 dvd y"
    proof -
      have "y - 1969 + 1 = y - 4 * 492" by simp
      then show ?thesis by (simp only: dvd_diff_left_iff dvd_triv_left)
    qed
    ultimately show ?thesis using div_succ_dvd[of 4 "y - 1969"] by simp
  qed
  have b: "(y + 1 - 1901) div 100 = (y - 1901) div 100 + (if 100 dvd y then 1 else 0)"
  proof -
    have "(y + 1 - 1901) = (y - 1901) + 1" by simp
    moreover have "100 dvd (y - 1901 + 1) \<longleftrightarrow> 100 dvd y"
    proof -
      have "y - 1901 + 1 = y - 100 * 19" by simp
      then show ?thesis by (simp only: dvd_diff_left_iff dvd_triv_left)
    qed
    ultimately show ?thesis using div_succ_dvd[of 100 "y - 1901"] by simp
  qed
  have c: "(y + 1 - 1601) div 400 = (y - 1601) div 400 + (if 400 dvd y then 1 else 0)"
  proof -
    have "(y + 1 - 1601) = (y - 1601) + 1" by simp
    moreover have "400 dvd (y - 1601 + 1) \<longleftrightarrow> 400 dvd y"
    proof -
      have "y - 1601 + 1 = y - 400 * 4" by simp
      then show ?thesis by (simp only: dvd_diff_left_iff dvd_triv_left)
    qed
    ultimately show ?thesis using div_succ_dvd[of 400 "y - 1601"] by simp
  qed
  show ?thesis
    unfolding DayFromYear_def DaysInYear_dvd a b c by simp
qed

lemma DaysInYear_range: "365 \<le> DaysInYear y" "DaysInYear y \<le> 366"
  by (simp_all add: DaysInYear_def)

lemma DayFromYear_less: "DayFromYear y < DayFromYear (y + 1)"
  using DaysInYear_range(1)[of y] by (simp add: DayFromYear_step)

text \<open>
  \<open>YearFromTime(t)\<close> is the largest year whose first day is not after \<open>t\<close>. It is found
  by counting up from a year that is certainly not too late.
\<close>

function yearSearch :: "int \<Rightarrow> int \<Rightarrow> int" where
  "yearSearch y d = (if DayFromYear (y + 1) \<le> d then yearSearch (y + 1) d else y)"
  by pat_completeness auto
termination
proof (relation "measure (\<lambda>(y, d). nat (d + 1 - DayFromYear y))")
  show "wf (measure (\<lambda>(y, d). nat (d + 1 - DayFromYear y)))" by simp
next
  fix y d :: int
  assume "DayFromYear (y + 1) \<le> d"
  with DayFromYear_less[of y]
  show "((y + 1, d), (y, d)) \<in> measure (\<lambda>(y, d). nat (d + 1 - DayFromYear y))"
    by simp
qed

definition YearFromDay :: "int \<Rightarrow> int" where
  "YearFromDay d = yearSearch (1970 + (if 0 \<le> d then d div 366 else d div 365)) d"

definition YearFromTime :: "int \<Rightarrow> int" where
  "YearFromTime t = YearFromDay (Day t)"

definition InLeapYear :: "int \<Rightarrow> int" where
  "InLeapYear t = (if DaysInYear (YearFromTime t) = 366 then 1 else 0)"

definition DayWithinYear :: "int \<Rightarrow> int" where
  "DayWithinYear t = Day t - DayFromYear (YearFromTime t)"

definition MonthFromTime :: "int \<Rightarrow> int" where
  "MonthFromTime t =
     (let d = DayWithinYear t; l = InLeapYear t in
      if d < 31 then 0
      else if d < 59 + l then 1
      else if d < 90 + l then 2
      else if d < 120 + l then 3
      else if d < 151 + l then 4
      else if d < 181 + l then 5
      else if d < 212 + l then 6
      else if d < 243 + l then 7
      else if d < 273 + l then 8
      else if d < 304 + l then 9
      else if d < 334 + l then 10
      else 11)"

definition DateFromTime :: "int \<Rightarrow> int" where
  "DateFromTime t =
     (let d = DayWithinYear t; l = InLeapYear t; m = MonthFromTime t in
      if m = 0 then d + 1
      else if m = 1 then d - 30
      else if m = 2 then d - 58 - l
      else if m = 3 then d - 89 - l
      else if m = 4 then d - 119 - l
      else if m = 5 then d - 150 - l
      else if m = 6 then d - 180 - l
      else if m = 7 then d - 211 - l
      else if m = 8 then d - 242 - l
      else if m = 9 then d - 272 - l
      else if m = 10 then d - 303 - l
      else d - 333 - l)"

definition HourFromTime :: "int \<Rightarrow> int" where
  "HourFromTime t = (t div msPerHour) mod 24"

definition MinFromTime :: "int \<Rightarrow> int" where
  "MinFromTime t = (t div msPerMinute) mod 60"

definition SecFromTime :: "int \<Rightarrow> int" where
  "SecFromTime t = (t div msPerSecond) mod 60"

definition MakeTime :: "int \<Rightarrow> int \<Rightarrow> int \<Rightarrow> int \<Rightarrow> int" where
  "MakeTime hour minute sec ms =
     hour * msPerHour + minute * msPerMinute + sec * msPerSecond + ms"

text \<open>
  The number of days of the year before month \<open>mn\<close> (0 to 11), \<open>l\<close> being 1 in a leap
  year: the day within the year at which \<open>MonthFromTime\<close> starts to answer \<open>mn\<close>.
\<close>

definition monthStart :: "int \<Rightarrow> int \<Rightarrow> int" where
  "monthStart l mn =
     (if mn = 0 then 0
      else if mn = 1 then 31
      else if mn = 2 then 59 + l
      else if mn = 3 then 90 + l
      else if mn = 4 then 120 + l
      else if mn = 5 then 151 + l
      else if mn = 6 then 181 + l
      else if mn = 7 then 212 + l
      else if mn = 8 then 243 + l
      else if mn = 9 then 273 + l
      else if mn = 10 then 304 + l
      else 334 + l)"

text \<open>
  \<open>MakeDay\<close> of the standard asks for the day number of the first day of month
  \<open>month mod 12\<close> in year \<open>year + floor(month / 12)\<close>, and adds \<open>date - 1\<close> to it: a month
  or a date out of range runs over into the neighbouring months and years.
\<close>

definition MakeDay :: "int \<Rightarrow> int \<Rightarrow> int \<Rightarrow> int" where
  "MakeDay year month date =
     (let ym = year + month div 12;
          mn = month mod 12
      in DayFromYear ym + monthStart (if DaysInYear ym = 366 then 1 else 0) mn + date - 1)"

definition MakeDate :: "int \<Rightarrow> int \<Rightarrow> int" where
  "MakeDate day time = day * msPerDay + time"

text \<open>A time value outside \<open>\<plusminus>8.64e15\<close> is \<open>NaN\<close>, the invalid date: \<open>None\<close>.\<close>

definition TimeClip :: "int \<Rightarrow> int option" where
  "TimeClip t = (if \<bar>t\<bar> > 8640000000000000 then None else Some t)"

text \<open>
  The local time zone is a parameter: the offset of local time from UTC, in milliseconds,
  that the runtime finds at a UTC time value, and the offset it takes to turn a local time
  into UTC (where a clock change skips or repeats the local time, the runtime makes a
  choice).
\<close>

record zone =
  offsetOfUTC :: "int \<Rightarrow> int"
  offsetOfLocal :: "int \<Rightarrow> int"

definition LocalTime :: "zone \<Rightarrow> int \<Rightarrow> int" where
  "LocalTime tz t = t + offsetOfUTC tz t"

definition UTC :: "zone \<Rightarrow> int \<Rightarrow> int" where
  "UTC tz t = t - offsetOfLocal tz t"

text \<open>
  \<^verbatim>\<open>new Date(year, monthIndex, day, hours, minutes, seconds)\<close>: the components are read
  as local time; a year from 0 to 99 means 1900 + year.
\<close>

definition newDate :: "zone \<Rightarrow> int \<Rightarrow> int \<Rightarrow> int \<Rightarrow> int \<Rightarrow> int \<Rightarrow> int \<Rightarrow> int option" where
  "newDate tz y m dt h mi s =
     (let yr = (if 0 \<le> y \<and> y \<le> 99 then 1900 + y else y);
          finalDate = MakeDate (MakeDay yr m dt) (MakeTime h mi s 0)
      in TimeClip (UTC tz finalDate))"

definition getFullYear :: "zone \<Rightarrow> int \<Rightarrow> int" where
  "getFullYear tz t = YearFromTime (LocalTime tz t)"

definition getMonth :: "zone \<Rightarrow> int \<Rightarrow> int" where
  "getMonth tz t = MonthFromTime (LocalTime tz t)"

definition getDate :: "zone \<Rightarrow> int \<Rightarrow> int" where
  "getDate tz t = DateFromTime (LocalTime tz t)"

definition getHours :: "zone \<Rightarrow> int \<Rightarrow> int" where
  "getHours tz t = HourFromTime (LocalTime tz t)"

definition getMinutes :: "zone \<Rightarrow> int \<Rightarrow> int" where
  "getMinutes tz t = MinFromTime (LocalTime tz t)"

definition getSeconds :: "zone \<Rightarrow> int \<Rightarrow> int" where
  "getSeconds tz t = SecFromTime (LocalTime tz t)"

text \<open>The length of month \<open>m\<close> (0 to 11) of year \<open>y\<close>, for stating what a calendar date is.\<close>

definition DaysInMonth :: "int \<Rightarrow> int \<Rightarrow> int" where
  "DaysInMonth y m =
     (if m = 1 then (if DaysInYear y = 366 then 29 else 28)
      else if m = 3 \<or> m = 5 \<or> m = 8 \<or> m = 10 then 30
      else 31)"

text \<open>A month index from 0 to 11 with a day of that month: a date of the calendar.\<close>

definition calendarDate :: "int \<Rightarrow> int \<Rightarrow> int \<Rightarrow> bool" where
  "calendarDate y m d \<longleftrightarrow> 0 \<le> m \<and> m \<le> 11 \<and> 1 \<le> d \<and> d \<le> DaysInMonth y m"

section \<open>Values of the language\<close>

text \<open>
  What \<^verbatim>\<open>JSON.parse\<close> returns, and what reading a property of it gives. A number is kept
  as a real: only whether it is zero matters below. An object is the list of its own
  properties, read with \<open>map_of\<close>.
\<close>

datatype jsval =
    JUndefined
  | JNull
  | JBool bool
  | JNum real
  | JStr string
  | JArr "jsval list"
  | JObj "(string \<times> jsval) list"

datatype jsError = TypeError | Error string

definition bindE :: "'e + 'a \<Rightarrow> ('a \<Rightarrow> 'e + 'b) \<Rightarrow> 'e + 'b" where
  "bindE m f = (case m of Inl e \<Rightarrow> Inl e | Inr x \<Rightarrow> f x)"

text \<open>\<^verbatim>\<open>a || b\<close> is \<open>a\<close> when \<open>a\<close> is truthy and \<open>b\<close> otherwise.\<close>

fun truthy :: "jsval \<Rightarrow> bool" where
  "truthy JUndefined = False"
| "truthy JNull = False"
| "truthy (JBool b) = b"
| "truthy (JNum n) = (n \<noteq> 0)"
| "truthy (JStr s) = (s \<noteq> [])"
| "truthy (JArr xs) = True"
| "truthy (JObj kvs) = True"

definition orElse :: "jsval \<Rightarrow> jsval \<Rightarrow> jsval" where
  "orElse a b = (if truthy a then a else b)"

text \<open>
  \<^verbatim>\<open>v.k\<close> for the property names read by the handler (\<^verbatim>\<open>start\<close>, \<^verbatim>\<open>end\<close>, \<^verbatim>\<open>title\<close>,
  \<^verbatim>\<open>summary\<close>, \<^verbatim>\<open>description\<close>, \<^verbatim>\<open>location\<close>, \<^verbatim>\<open>events\<close>, \<^verbatim>\<open>data\<close>): a
  \<^verbatim>\<open>TypeError\<close> on \<^verbatim>\<open>null\<close> and \<^verbatim>\<open>undefined\<close>, the property of an object, and
  \<^verbatim>\<open>undefined\<close> on a string, number, boolean or array, which have none of these.
\<close>

fun getProp :: "jsval \<Rightarrow> string \<Rightarrow> jsError + jsval" where
  "getProp JUndefined k = Inl TypeError"
| "getProp JNull k = Inl TypeError"
| "getProp (JObj kvs) k = Inr (case map_of kvs k of None \<Rightarrow> JUndefined | Some v \<Rightarrow> v)"
| "getProp v k = Inr JUndefined"

fun isArray :: "jsval \<Rightarrow> bool" where
  "isArray (JArr xs) = True"
| "isArray v = False"

text \<open>
  \<^verbatim>\<open>a === b\<close>. Two arrays or two objects are equal only when they are the same object,
  which the caller tells: \<open>sameRef\<close>.
\<close>

fun strictEquals :: "bool \<Rightarrow> jsval \<Rightarrow> jsval \<Rightarrow> bool" where
  "strictEquals sameRef JUndefined JUndefined = True"
| "strictEquals sameRef JNull JNull = True"
| "strictEquals sameRef (JBool a) (JBool b) = (a = b)"
| "strictEquals sameRef (JNum a) (JNum b) = (a = b)"
| "strictEquals sameRef (JStr a) (JStr b) = (a = b)"
| "strictEquals sameRef (JArr a) (JArr b) = sameRef"
| "strictEquals sameRef (JObj a) (JObj b) = sameRef"
| "strictEquals sameRef a b = False"

section \<open>Strings\<close>

definition isDigit :: "char \<Rightarrow> bool" where
  "isDigit c \<longleftrightarrow> c \<in> set ''0123456789''"

definition digitVal :: "char \<Rightarrow> int" where
  "digitVal c = int (length (takeWhile (\<lambda>d. d \<noteq> c) ''0123456789''))"

text \<open>
  \<^verbatim>\<open>parseInt\<close> is only applied to what \<^verbatim>\<open>(\d{4})\<close> and \<^verbatim>\<open>(\d{2})\<close> capture: on a string
  of decimal digits it is the number they write.
\<close>

definition parseInt :: "string \<Rightarrow> int" where
  "parseInt s = foldl (\<lambda>a c. 10 * a + digitVal c) 0 s"

text \<open>
  \<^verbatim>\<open>s.match(/^(\d{4})-(\d{2})-(\d{2})T(\d{2}):(\d{2}):(\d{2})/)\<close>: \<^verbatim>\<open>null\<close> (\<open>None\<close>), or
  the array of the matched text and the six captures. The pattern is anchored at the start
  only: whatever follows the seconds is not looked at.
\<close>

definition strictMatch :: "string \<Rightarrow> string list option" where
  "strictMatch s =
     (if 19 \<le> length s
         \<and> list_all isDigit (take 4 s) \<and> s ! 4 = CHR ''-''
         \<and> list_all isDigit (take 2 (drop 5 s)) \<and> s ! 7 = CHR ''-''
         \<and> list_all isDigit (take 2 (drop 8 s)) \<and> s ! 10 = CHR ''T''
         \<and> list_all isDigit (take 2 (drop 11 s)) \<and> s ! 13 = CHR '':''
         \<and> list_all isDigit (take 2 (drop 14 s)) \<and> s ! 16 = CHR '':''
         \<and> list_all isDigit (take 2 (drop 17 s))
      then Some [take 19 s, take 4 s, take 2 (drop 5 s), take 2 (drop 8 s),
                 take 2 (drop 11 s), take 2 (drop 14 s), take 2 (drop 17 s)]
      else None)"

text \<open>\<^verbatim>\<open>String(n)\<close> of an integer.\<close>

definition digitChar :: "nat \<Rightarrow> char" where
  "digitChar n = ''0123456789'' ! n"

fun digitsOf :: "nat \<Rightarrow> string" where
  "digitsOf n = (if n < 10 then [digitChar n] else digitsOf (n div 10) @ [digitChar (n mod 10)])"

declare digitsOf.simps [simp del]
declare yearSearch.simps [simp del]

definition numberToString :: "int \<Rightarrow> string" where
  "numberToString n = (if n < 0 then CHR ''-'' # digitsOf (nat (- n)) else digitsOf (nat n))"

text \<open>\<^verbatim>\<open>s.padStart(2, '0')\<close>.\<close>

definition padStart2 :: "string \<Rightarrow> string" where
  "padStart2 s = replicate (2 - length s) CHR ''0'' @ s"

section \<open>The route handler\<close>

text \<open>
  An event holds two valid dates, as time values: both places that push an event are behind
  the \<^verbatim>\<open>isNaN\<close> test. The other three fields hold whatever the record had there.
\<close>

record ScheduleEvent =
  start :: int
  end_date :: int
  title :: jsval
  description :: jsval
  location :: jsval

text \<open>
  \<^verbatim>\<open>new Date(string)\<close>, the general parser of the runtime, is a parameter \<open>dateParse\<close>:
  \<open>None\<close> is the invalid date.

  One turn of the loop of \<^verbatim>\<open>parseEventsFromJSON\<close>: \<open>Inl\<close> is an exception (which the
  loop catches and logs), \<open>Inr None\<close> is \<^verbatim>\<open>continue\<close>, \<open>Inr (Some e)\<close> pushes \<open>e\<close>.
  Calling \<^verbatim>\<open>.match\<close> on anything but a string is a \<^verbatim>\<open>TypeError\<close>.
\<close>

definition dateOfMatch :: "zone \<Rightarrow> string list \<Rightarrow> int option" where
  "dateOfMatch tz m =
     newDate tz (parseInt (m ! 1)) (parseInt (m ! 2) - 1) (parseInt (m ! 3))
       (parseInt (m ! 4)) (parseInt (m ! 5)) (parseInt (m ! 6))"

definition pushed :: "jsval \<Rightarrow> int \<Rightarrow> int \<Rightarrow> jsError + ScheduleEvent option" where
  "pushed event startDate endDate =
     bindE (getProp event ''title'') (\<lambda>t.
     bindE (if truthy t then Inr t else getProp event ''summary'') (\<lambda>ts.
     bindE (getProp event ''description'') (\<lambda>d.
     bindE (getProp event ''location'') (\<lambda>l.
       Inr (Some \<lparr> start = startDate, end_date = endDate,
                   title = orElse ts (JStr ''Work Schedule''),
                   description = orElse d (JStr ''''),
                   location = orElse l (JStr '''') \<rparr>)))))"

definition loopBody :: "zone \<Rightarrow> (string \<Rightarrow> int option) \<Rightarrow> jsval \<Rightarrow> jsError + ScheduleEvent option" where
  "loopBody tz dateParse event =
     bindE (getProp event ''start'') (\<lambda>startStr.
     bindE (getProp event ''end'') (\<lambda>endStr.
       case startStr of
         JStr s \<Rightarrow>
           (case endStr of
              JStr e \<Rightarrow>
                (case (strictMatch s, strictMatch e) of
                   (Some startMatch, Some endMatch) \<Rightarrow>
                     (case (dateOfMatch tz startMatch, dateOfMatch tz endMatch) of
                        (Some startDate, Some endDate) \<Rightarrow> pushed event startDate endDate
                      | _ \<Rightarrow> Inr None)
                 | _ \<Rightarrow>
                     (case (dateParse s, dateParse e) of
                        (Some startDate, Some endDate) \<Rightarrow> pushed event startDate endDate
                      | _ \<Rightarrow> Inr None))
            | _ \<Rightarrow> Inl TypeError)
       | _ \<Rightarrow> Inl TypeError))"

fun parseLoop ::
  "zone \<Rightarrow> (string \<Rightarrow> int option) \<Rightarrow> jsval list \<Rightarrow> ScheduleEvent list \<Rightarrow> ScheduleEvent list" where
  "parseLoop tz dateParse [] events = events"
| "parseLoop tz dateParse (event # rest) events =
     (case loopBody tz dateParse event of
        Inr (Some e) \<Rightarrow> parseLoop tz dateParse rest (events @ [e])
      | Inr None \<Rightarrow> parseLoop tz dateParse rest events
      | Inl err \<Rightarrow> parseLoop tz dateParse rest events)"

definition parseEventsFromJSON ::
  "zone \<Rightarrow> (string \<Rightarrow> int option) \<Rightarrow> jsval list \<Rightarrow> ScheduleEvent list" where
  "parseEventsFromJSON tz dateParse eventsData = parseLoop tz dateParse eventsData []"

text \<open>
  What the model answers for one image, as \<^verbatim>\<open>processImage\<close> sees it: the request failed,
  there was no content, the content is not JSON, or the value \<^verbatim>\<open>JSON.parse\<close> returned.
\<close>

datatype aiReply = RequestFailed string | NoContent | NotJSON | Parsed jsval

definition eventsDataOf :: "jsval \<Rightarrow> jsError + jsval" where
  "eventsDataOf parsed =
     (if isArray parsed then Inr parsed
      else bindE (getProp parsed ''events'') (\<lambda>ev.
           if truthy ev then Inr ev
           else bindE (getProp parsed ''data'') (\<lambda>d. Inr (orElse d (JArr [])))))"

definition processImage ::
  "zone \<Rightarrow> (string \<Rightarrow> int option) \<Rightarrow> aiReply \<Rightarrow> jsError + ScheduleEvent list" where
  "processImage tz dateParse reply =
     (case reply of
        RequestFailed msg \<Rightarrow> Inl (Error msg)
      | NoContent \<Rightarrow> Inl (Error ''No response from AI model'')
      | NotJSON \<Rightarrow> Inl (Error ''Failed to parse AI response'')
      | Parsed parsed \<Rightarrow>
          (case eventsDataOf parsed of
             Inl err \<Rightarrow> Inl (Error ''Failed to parse AI response'')
           | Inr eventsData \<Rightarrow>
               (case eventsData of
                  JArr xs \<Rightarrow> Inr (parseEventsFromJSON tz dateParse xs)
                | _ \<Rightarrow> Inr [])))"

definition formatICSDateTime :: "zone \<Rightarrow> int \<Rightarrow> string" where
  "formatICSDateTime tz date =
     (let year = getFullYear tz date;
          month = padStart2 (numberToString (getMonth tz date + 1));
          day = padStart2 (numberToString (getDate tz date));
          hours = padStart2 (numberToString (getHours tz date));
          minutes = padStart2 (numberToString (getMinutes tz date));
          seconds = padStart2 (numberToString (getSeconds tz date))
      in numberToString year @ month @ day @ ''T'' @ hours @ minutes @ seconds)"

text \<open>\<^verbatim>\<open>s.replace(/c/g, r)\<close> for a one-character pattern.\<close>

definition replaceAll :: "char \<Rightarrow> string \<Rightarrow> string \<Rightarrow> string" where
  "replaceAll c r s = concat (map (\<lambda>x. if x = c then r else [x]) s)"

definition backslash :: char where "backslash = CHR 0x5C"
definition newline :: char where "newline = CHR 0x0A"
definition crlf :: string where "crlf = [CHR 0x0D, CHR 0x0A]"

definition escapeICSValue :: "string \<Rightarrow> string" where
  "escapeICSValue v =
     replaceAll newline [backslash, CHR ''n'']
       (replaceAll CHR '','' [backslash, CHR '','']
         (replaceAll CHR '';'' [backslash, CHR '';'']
           (replaceAll backslash [backslash, backslash] v)))"

text \<open>\<^verbatim>\<open>escapeICSValue(v)\<close> on a value: \<^verbatim>\<open>.replace\<close> is a method of strings only.\<close>

fun escapeArg :: "jsval \<Rightarrow> jsError + string" where
  "escapeArg (JStr s) = Inr (escapeICSValue s)"
| "escapeArg v = Inl TypeError"

datatype calFormat = Outlook | Apple

definition eventLines :: "zone \<Rightarrow> ScheduleEvent \<Rightarrow> jsError + string" where
  "eventLines tz event =
     (let dtstart = formatICSDateTime tz (start event);
          dtend = formatICSDateTime tz (end_date event)
      in bindE (escapeArg (orElse (title event) (JStr ''Work Schedule''))) (\<lambda>summary.
         bindE (escapeArg (orElse (description event) (JStr ''''))) (\<lambda>description.
         bindE (escapeArg (orElse (location event) (JStr ''''))) (\<lambda>location.
           Inr (''BEGIN:VEVENT'' @ crlf
                @ ''DTSTART:'' @ dtstart @ crlf
                @ ''DTEND:'' @ dtend @ crlf
                @ ''SUMMARY:'' @ summary @ crlf
                @ (if description \<noteq> [] then ''DESCRIPTION:'' @ description @ crlf else [])
                @ (if location \<noteq> [] then ''LOCATION:'' @ location @ crlf else [])
                @ ''END:VEVENT'' @ crlf)))))"

fun forEachEvent :: "zone \<Rightarrow> ScheduleEvent list \<Rightarrow> string \<Rightarrow> jsError + string" where
  "forEachEvent tz [] ics = Inr ics"
| "forEachEvent tz (event # rest) ics =
     (case eventLines tz event of
        Inl err \<Rightarrow> Inl err
      | Inr ls \<Rightarrow> forEachEvent tz rest (ics @ ls))"

definition generateCalendar :: "zone \<Rightarrow> ScheduleEvent list \<Rightarrow> calFormat \<Rightarrow> jsError + string" where
  "generateCalendar tz events format =
     (let ics = ''BEGIN:VCALENDAR'' @ crlf
              @ ''VERSION:2.0'' @ crlf
              @ ''PRODID:-//Schedule to Calendar//Schedule Converter//EN'' @ crlf
              @ ''CALSCALE:GREGORIAN'' @ crlf
              @ ''METHOD:PUBLISH'' @ crlf
              @ ''X-WR-CALNAME:Work Schedule'' @ crlf
      in case forEachEvent tz events ics of
           Inl err \<Rightarrow> Inl err
         | Inr ics' \<Rightarrow> Inr (ics' @ ''END:VCALENDAR'' @ crlf))"

text \<open>
  \<^verbatim>\<open>xs.findIndex(p)\<close> and \<^verbatim>\<open>xs.filter(p)\<close>, whose callbacks are given the element and its
  index.
\<close>

fun findIndexFrom :: "nat \<Rightarrow> ('a \<Rightarrow> nat \<Rightarrow> bool) \<Rightarrow> 'a list \<Rightarrow> int" where
  "findIndexFrom i p [] = - 1"
| "findIndexFrom i p (x # xs) = (if p x i then int i else findIndexFrom (Suc i) p xs)"

definition findIndex :: "('a \<Rightarrow> nat \<Rightarrow> bool) \<Rightarrow> 'a list \<Rightarrow> int" where
  "findIndex p xs = findIndexFrom 0 p xs"

fun filterFrom :: "nat \<Rightarrow> ('a \<Rightarrow> nat \<Rightarrow> bool) \<Rightarrow> 'a list \<Rightarrow> 'a list" where
  "filterFrom i p [] = []"
| "filterFrom i p (x # xs) = (if p x i then x # filterFrom (Suc i) p xs else filterFrom (Suc i) p xs)"

definition filterIndexed :: "('a \<Rightarrow> nat \<Rightarrow> bool) \<Rightarrow> 'a list \<Rightarrow> 'a list" where
  "filterIndexed p xs = filterFrom 0 p xs"

text \<open>
  The test of the duplicate filter, between the event \<open>e\<close> at index \<open>j\<close> and the event at
  index \<open>index\<close>. Every event is built from a record of its own, so a title that is an array
  or an object is the same object only when \<open>j = index\<close>.
\<close>

definition sameKey :: "ScheduleEvent \<Rightarrow> nat \<Rightarrow> ScheduleEvent \<Rightarrow> nat \<Rightarrow> bool" where
  "sameKey event index e j \<longleftrightarrow>
     start e = start event \<and> end_date e = end_date event
     \<and> strictEquals (j = index) (title e) (title event)"

definition uniqueEvents :: "ScheduleEvent list \<Rightarrow> ScheduleEvent list" where
  "uniqueEvents allEvents =
     filterIndexed (\<lambda>event index. int index = findIndex (sameKey event index) allEvents) allEvents"

text \<open>
  \<^verbatim>\<open>sort\<close> with the comparator \<^verbatim>\<open>a.start.getTime() - b.start.getTime()\<close>: the runtime's sort
  is stable, and the comparator orders by the time value of \<open>start\<close>.
\<close>

definition sortByStart :: "ScheduleEvent list \<Rightarrow> ScheduleEvent list" where
  "sortByStart events = sort_key start events"

text \<open>
  The request, after the form is read: whether the API key is set, the images (each stands
  for what the model replies on it) and the format field. The response is a JSON error with
  its status, or the calendar file.
\<close>

record request =
  apiKeySet :: bool
  images :: "aiReply list"
  format :: "string option"

datatype response = ErrorResponse jsError nat | CalendarFile string

text \<open>
  \<^verbatim>\<open>err.message\<close>. The message of a \<^verbatim>\<open>TypeError\<close> is the engine's own text; the loop over
  the images only ever sees the errors that \<^verbatim>\<open>processImage\<close> makes with \<^verbatim>\<open>new Error\<close>.
\<close>

fun errorMessage :: "jsError \<Rightarrow> string" where
  "errorMessage (Error msg) = msg"
| "errorMessage TypeError = ''TypeError''"

text \<open>The loop over the images: the events of the images that succeed, the messages of the others.\<close>

fun imageLoop ::
  "zone \<Rightarrow> (string \<Rightarrow> int option) \<Rightarrow> nat \<Rightarrow> aiReply list \<Rightarrow> ScheduleEvent list \<Rightarrow> string list
     \<Rightarrow> ScheduleEvent list \<times> string list" where
  "imageLoop tz dateParse i [] allEvents errors = (allEvents, errors)"
| "imageLoop tz dateParse i (img # rest) allEvents errors =
     (case processImage tz dateParse img of
        Inr events \<Rightarrow> imageLoop tz dateParse (Suc i) rest (allEvents @ events) errors
      | Inl err \<Rightarrow>
          imageLoop tz dateParse (Suc i) rest allEvents
            (errors @ [''Image '' @ numberToString (int i + 1) @ '': '' @ errorMessage err]))"

fun joinWith :: "string \<Rightarrow> string list \<Rightarrow> string" where
  "joinWith sep [] = []"
| "joinWith sep [x] = x"
| "joinWith sep (x # y # ys) = x @ sep @ joinWith sep (y # ys)"

definition parseFormat :: "string option \<Rightarrow> calFormat option" where
  "parseFormat f =
     (if f = Some ''outlook'' then Some Outlook
      else if f = Some ''apple'' then Some Apple
      else None)"

definition POST :: "zone \<Rightarrow> (string \<Rightarrow> int option) \<Rightarrow> request \<Rightarrow> response" where
  "POST tz dateParse req =
     (if \<not> apiKeySet req then
        ErrorResponse (Error ''OpenAI API key is not configured. Please set OPENAI_API_KEY environment variable.'') 500
      else if images req = [] then ErrorResponse (Error ''No images provided'') 400
      else case parseFormat (format req) of
        None \<Rightarrow> ErrorResponse (Error (''Invalid format. Must be '' @ [CHR 0x22] @ ''outlook''
                    @ [CHR 0x22] @ '' or '' @ [CHR 0x22] @ ''apple'' @ [CHR 0x22])) 400
      | Some fmt \<Rightarrow>
          (case imageLoop tz dateParse 0 (images req) [] [] of
             (allEvents, errors) \<Rightarrow>
               if allEvents = [] then
                 ErrorResponse (Error
                   (if errors \<noteq> [] then
                      ''Failed to extract events from images. '' @ joinWith '' '' errors
                    else ''No schedule events found in any of the images. Please ensure the images are clear and contain readable work schedules.'')) 400
               else
                 (case generateCalendar tz (sortByStart (uniqueEvents allEvents)) fmt of
                    Inr calendarContent \<Rightarrow> CalendarFile calendarContent
                  | Inl err \<Rightarrow> ErrorResponse err 500)))"


section \<open>Notions used to state the properties\<close>

text \<open>
  The wall-clock reading of a date in the local zone: year, month (1 to 12), day, hour,
  minute, second, as the getters of \<^verbatim>\<open>Date\<close> give them.
\<close>

definition wallClock :: "zone \<Rightarrow> int \<Rightarrow> int \<times> int \<times> int \<times> int \<times> int \<times> int" where
  "wallClock tz t =
     (getFullYear tz t, getMonth tz t + 1, getDate tz t,
      getHours tz t, getMinutes tz t, getSeconds tz t)"

text \<open>The six numbers captured by a match of the pattern.\<close>

definition captured :: "string list \<Rightarrow> int \<times> int \<times> int \<times> int \<times> int \<times> int" where
  "captured m =
     (parseInt (m ! 1), parseInt (m ! 2), parseInt (m ! 3),
      parseInt (m ! 4), parseInt (m ! 5), parseInt (m ! 6))"

text \<open>Six numbers that are a date of the calendar with a time of the day.\<close>

fun calendarDateTime :: "int \<times> int \<times> int \<times> int \<times> int \<times> int \<Rightarrow> bool" where
  "calendarDateTime (y, mo, d, h, mi, s) \<longleftrightarrow>
     calendarDate y (mo - 1) d \<and> 0 \<le> h \<and> h \<le> 23 \<and> 0 \<le> mi \<and> mi \<le> 59 \<and> 0 \<le> s \<and> s \<le> 59"

text \<open>A zone whose offsets for local times are within a day either way.\<close>

definition boundedOffsets :: "zone \<Rightarrow> bool" where
  "boundedOffsets tz \<longleftrightarrow> (\<forall>t. \<bar>offsetOfLocal tz t\<bar> \<le> msPerDay)"

text \<open>
  The local time written by six numbers, and what it is for it to exist in a zone: turned
  into UTC and back, it is itself. A local time skipped by a clock change does not exist.
\<close>

fun localTimeOf :: "int \<times> int \<times> int \<times> int \<times> int \<times> int \<Rightarrow> int" where
  "localTimeOf (y, mo, d, h, mi, s) = MakeDate (MakeDay y (mo - 1) d) (MakeTime h mi s 0)"

definition existsInZone :: "zone \<Rightarrow> int \<Rightarrow> bool" where
  "existsInZone tz t \<longleftrightarrow> LocalTime tz (UTC tz t) = t"

text \<open>A zone with the same offset at all times, and UTC itself.\<close>

definition fixedZone :: "int \<Rightarrow> zone" where
  "fixedZone off = \<lparr> offsetOfUTC = (\<lambda>t. off), offsetOfLocal = (\<lambda>t. off) \<rparr>"

definition utcZone :: zone where
  "utcZone = fixedZone 0"

text \<open>
  A zone five hours behind UTC whose clocks go forward by an hour on 8 March 2026 at
  2:00 local time (7:00 UTC): the local times from 2:00 to 3:00 of that day do not exist,
  and are read with the offset before the change.
\<close>

definition springForward :: zone where
  "springForward =
     \<lparr> offsetOfUTC = (\<lambda>t. if t < 1772953200000 then - 18000000 else - 14400000),
       offsetOfLocal = (\<lambda>t. if t < 1772938800000 then - 18000000 else - 14400000) \<rparr>"

text \<open>
  The two dates the loop computes for a record whose \<^verbatim>\<open>start\<close> is the string \<open>s\<close> and
  whose \<^verbatim>\<open>end\<close> is the string \<open>e\<close>: both from the pattern when both match it, both from the
  general parser otherwise.
\<close>

definition recordDates ::
  "zone \<Rightarrow> (string \<Rightarrow> int option) \<Rightarrow> string \<Rightarrow> string \<Rightarrow> int option \<times> int option" where
  "recordDates tz dateParse s e =
     (case (strictMatch s, strictMatch e) of
        (Some sm, Some em) \<Rightarrow> (dateOfMatch tz sm, dateOfMatch tz em)
      | _ \<Rightarrow> (dateParse s, dateParse e))"

text \<open>What one record adds to the output.\<close>

definition recordEvents :: "zone \<Rightarrow> (string \<Rightarrow> int option) \<Rightarrow> jsval \<Rightarrow> ScheduleEvent list" where
  "recordEvents tz dp r = (case loopBody tz dp r of Inr (Some ev) \<Rightarrow> [ev] | _ \<Rightarrow> [])"

text \<open>A string that neither strategy reads.\<close>

definition unreadable :: "(string \<Rightarrow> int option) \<Rightarrow> string \<Rightarrow> bool" where
  "unreadable dateParse s \<longleftrightarrow> strictMatch s = None \<and> dateParse s = None"

text \<open>
  A valid record, field by field: \<^verbatim>\<open>start\<close> and \<^verbatim>\<open>end\<close> are strings, and each of
  them is read by one of the two strategies (it matches the pattern, or the general parser
  reads it).
\<close>

definition validRecord :: "(string \<Rightarrow> int option) \<Rightarrow> jsval \<Rightarrow> bool" where
  "validRecord dateParse r =
     (case (getProp r ''start'', getProp r ''end'') of
        (Inr (JStr s), Inr (JStr e)) \<Rightarrow> \<not> unreadable dateParse s \<and> \<not> unreadable dateParse e
      | _ \<Rightarrow> False)"

text \<open>
  A record both of whose fields one strategy reads: \<^verbatim>\<open>start\<close> and \<^verbatim>\<open>end\<close> are strings
  that both match the pattern, or that the general parser both reads.
\<close>

definition sameStrategy :: "(string \<Rightarrow> int option) \<Rightarrow> jsval \<Rightarrow> bool" where
  "sameStrategy dateParse r =
     (case (getProp r ''start'', getProp r ''end'') of
        (Inr (JStr s), Inr (JStr e)) \<Rightarrow>
          (strictMatch s \<noteq> None \<and> strictMatch e \<noteq> None)
          \<or> (dateParse s \<noteq> None \<and> dateParse e \<noteq> None)
      | _ \<Rightarrow> False)"

text \<open>
  The records taken from a parsed reply: an array itself; of an object, the \<^verbatim>\<open>events\<close>
  field when it is an array, and the \<^verbatim>\<open>data\<close> field when it is an array and \<^verbatim>\<open>events\<close>
  is missing or falsy; none otherwise.
\<close>

definition dataRecords :: "(string \<times> jsval) list \<Rightarrow> jsval list" where
  "dataRecords kvs = (case map_of kvs ''data'' of Some (JArr xs) \<Rightarrow> xs | _ \<Rightarrow> [])"

fun selectedRecords :: "jsval \<Rightarrow> jsval list" where
  "selectedRecords (JArr xs) = xs"
| "selectedRecords (JObj kvs) =
     (case map_of kvs ''events'' of
        None \<Rightarrow> dataRecords kvs
      | Some ev \<Rightarrow> (case ev of JArr xs \<Rightarrow> xs | _ \<Rightarrow> if truthy ev then [] else dataRecords kvs))"
| "selectedRecords v = []"

text \<open>
  The triple of an event, and an array or an object: a value with an identity.
\<close>

definition keyOf :: "ScheduleEvent \<Rightarrow> int \<times> int \<times> jsval" where
  "keyOf e = (start e, end_date e, title e)"

fun isObject :: "jsval \<Rightarrow> bool" where
  "isObject (JArr xs) = True"
| "isObject (JObj kvs) = True"
| "isObject v = False"

text \<open>
  Two different events with the same \<^verbatim>\<open>(start, end, title)\<close>, as \<^verbatim>\<open>===\<close> compares them:
  with equal triples, unless the title is an array or an object.
\<close>

definition identicalTriple :: "ScheduleEvent \<Rightarrow> ScheduleEvent \<Rightarrow> bool" where
  "identicalTriple a b \<longleftrightarrow>
     start a = start b \<and> end_date a = end_date b \<and> strictEquals False (title a) (title b)"

text \<open>
  Reading an escaped value back: a backslash and \<^verbatim>\<open>n\<close> is a line feed, a backslash and any
  other character is that character.
\<close>

fun decodeICSValue :: "string \<Rightarrow> string" where
  "decodeICSValue [] = []"
| "decodeICSValue [c] = [c]"
| "decodeICSValue (c # d # rest) =
     (if c = backslash then (if d = CHR ''n'' then newline else d) # decodeICSValue rest
      else c # decodeICSValue (d # rest))"

text \<open>A number from 0 to 99 in two digits, and one from 0 to 9999 in four.\<close>

definition twoDigits :: "int \<Rightarrow> string" where
  "twoDigits v = [digitChar (nat v div 10), digitChar (nat v mod 10)]"

definition fourDigits :: "int \<Rightarrow> string" where
  "fourDigits v =
     [digitChar (nat v div 1000), digitChar (nat v div 100 mod 10),
      digitChar (nat v div 10 mod 10), digitChar (nat v mod 10)]"

text \<open>What the four passes of \<^verbatim>\<open>escapeICSValue\<close> make of one character.\<close>

definition escapeChar :: "char \<Rightarrow> string" where
  "escapeChar x =
     (if x = backslash then [backslash, backslash]
      else if x = CHR '';'' then [backslash, CHR '';'']
      else if x = CHR '','' then [backslash, CHR '','']
      else if x = newline then [backslash, CHR ''n'']
      else [x])"

text \<open>Sample inputs.\<close>

definition noFallback :: "string \<Rightarrow> int option" where
  "noFallback s = None"


definition shift :: "string \<Rightarrow> string \<Rightarrow> string \<Rightarrow> jsval" where
  "shift s e t = JObj [(''start'', JStr s), (''end'', JStr e), (''title'', JStr t)]"


definition sampleEvents :: "ScheduleEvent list" where
  "sampleEvents = parseEventsFromJSON utcZone noFallback
     [shift ''2026-02-01T09:00:00'' ''2026-02-01T17:00:00'' ''Shift'',
      shift ''2026-01-10T15:00:00'' ''2026-01-10T22:00:00'' ''Coverage'',
      JObj [(''start'', JStr ''2026-02-01T09:00:00''), (''end'', JStr ''2026-02-01T17:00:00''),
            (''title'', JStr ''Shift''), (''description'', JStr ''8 hours''),
            (''location'', JStr ''Front desk'')],
      shift ''2026-01-10T15:00:00'' ''2026-01-10T22:00:00'' ''Task'']"

section \<open>Calendar arithmetic: what the operations compute\<close>

subsection \<open>Years\<close>

lemma DayFromYear_1970: "DayFromYear 1970 = 0"
  by (simp add: DayFromYear_def)

lemma DayFromYear_mono: "y \<le> y' \<Longrightarrow> DayFromYear y \<le> DayFromYear y'"
proof (induction y' rule: int_ge_induct)
  case base
  show ?case by simp
next
  case (step i)
  with DayFromYear_less[of i] show ?case by simp
qed

lemma DayFromYear_after_1970:
  "0 \<le> k \<Longrightarrow> 365 * k \<le> DayFromYear (1970 + k) \<and> DayFromYear (1970 + k) \<le> 366 * k"
proof (induction k rule: int_ge_induct)
  case base
  show ?case by (simp add: DayFromYear_1970)
next
  case (step i)
  have "DayFromYear (1970 + (i + 1)) = DayFromYear (1970 + i) + DaysInYear (1970 + i)"
    using DayFromYear_step[of "1970 + i"] by (simp add: add.assoc)
  with step DaysInYear_range[of "1970 + i"] show ?case by simp
qed

lemma DayFromYear_before_1970:
  "k \<le> 0 \<Longrightarrow> 366 * k \<le> DayFromYear (1970 + k) \<and> DayFromYear (1970 + k) \<le> 365 * k"
proof (induction k rule: int_le_induct)
  case base
  show ?case by (simp add: DayFromYear_1970)
next
  case (step i)
  have "DayFromYear (1970 + i) = DayFromYear (1970 + (i - 1)) + DaysInYear (1970 + (i - 1))"
    using DayFromYear_step[of "1970 + (i - 1)"] by simp
  with step DaysInYear_range[of "1970 + (i - 1)"] show ?case by simp
qed

lemma year_estimate:
  "DayFromYear (1970 + (if 0 \<le> d then d div 366 else d div 365)) \<le> d"
proof (cases "0 \<le> d")
  case True
  then have "0 \<le> d div 366" by simp
  from DayFromYear_after_1970[OF this] have "DayFromYear (1970 + d div 366) \<le> 366 * (d div 366)"
    by simp
  also have "\<dots> \<le> d" by (simp add: mult.commute)
  finally show ?thesis using True by simp
next
  case False
  then have "d div 365 \<le> 0" by (simp add: div_int_pos_iff not_le)
  from DayFromYear_before_1970[OF this] have "DayFromYear (1970 + d div 365) \<le> 365 * (d div 365)"
    by simp
  also have "\<dots> \<le> d" by (simp add: mult.commute)
  finally show ?thesis using False by simp
qed

lemma yearSearch_bounds:
  "DayFromYear y \<le> d \<Longrightarrow>
     DayFromYear (yearSearch y d) \<le> d \<and> d < DayFromYear (yearSearch y d + 1)"
proof (induction y d rule: yearSearch.induct)
  case (1 y d)
  show ?case
  proof (cases "DayFromYear (y + 1) \<le> d")
    case True
    with "1.IH" show ?thesis by (subst (1 2) yearSearch.simps) simp
  next
    case False
    with "1.prems" show ?thesis by (subst (1 2) yearSearch.simps) simp
  qed
qed

lemma YearFromDay_bounds:
  "DayFromYear (YearFromDay d) \<le> d" "d < DayFromYear (YearFromDay d + 1)"
  using yearSearch_bounds[OF year_estimate, of d] by (simp_all add: YearFromDay_def)

lemma YearFromDay_unique:
  assumes "DayFromYear y \<le> d" and "d < DayFromYear (y + 1)"
  shows "YearFromDay d = y"
proof (rule ccontr)
  assume ne: "YearFromDay d \<noteq> y"
  let ?r = "YearFromDay d"
  show False
  proof (cases "?r < y")
    case True
    then have "DayFromYear (?r + 1) \<le> DayFromYear y" by (intro DayFromYear_mono) simp
    with assms(1) YearFromDay_bounds(2)[of d] show False by simp
  next
    case False
    with ne have "DayFromYear (y + 1) \<le> DayFromYear ?r" by (intro DayFromYear_mono) simp
    with assms(2) YearFromDay_bounds(1)[of d] show False by simp
  qed
qed

lemma DayWithinYear_range:
  "0 \<le> DayWithinYear t" "DayWithinYear t < DaysInYear (YearFromTime t)"
  using YearFromDay_bounds[of "Day t"] DayFromYear_step[of "YearFromDay (Day t)"]
  by (simp_all add: DayWithinYear_def YearFromTime_def)

lemma InLeapYear_cases: "InLeapYear t = 0 \<and> DaysInYear (YearFromTime t) = 365 \<or>
   InLeapYear t = 1 \<and> DaysInYear (YearFromTime t) = 366"
  by (simp add: InLeapYear_def DaysInYear_def)

lemma MonthFromTime_range: "0 \<le> MonthFromTime t" "MonthFromTime t \<le> 11"
  by (simp_all add: MonthFromTime_def Let_def)

lemma DateFromTime_range:
  "1 \<le> DateFromTime t" "DateFromTime t \<le> DaysInMonth (YearFromTime t) (MonthFromTime t)"
proof -
  define d where "d = DayWithinYear t"
  define l where "l = InLeapYear t"
  have d: "0 \<le> d" "d < DaysInYear (YearFromTime t)"
    using DayWithinYear_range[of t] by (simp_all add: d_def)
  from InLeapYear_cases[of t]
  have l: "l = 0 \<and> DaysInYear (YearFromTime t) = 365 \<or> l = 1 \<and> DaysInYear (YearFromTime t) = 366"
    by (simp add: l_def)
  show "1 \<le> DateFromTime t"
    unfolding DateFromTime_def MonthFromTime_def Let_def d_def[symmetric] l_def[symmetric]
    using d l by (simp split: if_splits) 
  show "DateFromTime t \<le> DaysInMonth (YearFromTime t) (MonthFromTime t)"
    unfolding DateFromTime_def MonthFromTime_def DaysInMonth_def Let_def d_def[symmetric] l_def[symmetric]
    using d l by (auto split: if_splits)
qed

subsection \<open>Reading back what was built\<close>

lemma time_fields_range:
  "0 \<le> HourFromTime t" "HourFromTime t \<le> 23"
  "0 \<le> MinFromTime t" "MinFromTime t \<le> 59"
  "0 \<le> SecFromTime t" "SecFromTime t \<le> 59"
  by (simp_all add: HourFromTime_def MinFromTime_def SecFromTime_def)

lemma MakeTime_range:
  assumes "0 \<le> h" "h \<le> 23" "0 \<le> mi" "mi \<le> 59" "0 \<le> s" "s \<le> 59"
  shows "0 \<le> MakeTime h mi s 0" "MakeTime h mi s 0 < msPerDay"
  using assms by (simp_all add: MakeTime_def msPerDay_def msPerHour_def msPerMinute_def msPerSecond_def)

lemma Day_MakeDate: "0 \<le> tm \<Longrightarrow> tm < msPerDay \<Longrightarrow> Day (MakeDate dy tm) = dy"
proof -
  assume a: "0 \<le> tm" "tm < msPerDay"
  have "MakeDate dy tm = msPerDay * dy + tm" by (simp add: MakeDate_def)
  from this a show ?thesis unfolding Day_def by (rule int_div_pos_eq)
qed

lemma HourFromTime_MakeDate:
  assumes "0 \<le> h" "h \<le> 23" "0 \<le> mi" "mi \<le> 59" "0 \<le> s" "s \<le> 59"
  shows "HourFromTime (MakeDate dy (MakeTime h mi s 0)) = h"
proof -
  have "MakeDate dy (MakeTime h mi s 0) = msPerHour * (24 * dy + h) + (mi * 60000 + s * 1000)"
    by (simp add: MakeDate_def MakeTime_def msPerDay_def msPerHour_def msPerMinute_def
        msPerSecond_def algebra_simps)
  moreover have "0 \<le> mi * 60000 + s * 1000" "mi * 60000 + s * 1000 < msPerHour"
    using assms by (simp_all add: msPerHour_def)
  ultimately have "MakeDate dy (MakeTime h mi s 0) div msPerHour = 24 * dy + h"
    by (rule int_div_pos_eq)
  then show ?thesis using assms by (simp add: HourFromTime_def)
qed

lemma MinFromTime_MakeDate:
  assumes "0 \<le> h" "h \<le> 23" "0 \<le> mi" "mi \<le> 59" "0 \<le> s" "s \<le> 59"
  shows "MinFromTime (MakeDate dy (MakeTime h mi s 0)) = mi"
proof -
  define q where "q = 24 * dy + h"
  have "MakeDate dy (MakeTime h mi s 0) = msPerMinute * (60 * q + mi) + s * 1000"
    by (simp add: MakeDate_def MakeTime_def msPerDay_def msPerHour_def msPerMinute_def
        msPerSecond_def algebra_simps q_def)
  moreover have "0 \<le> s * 1000" "s * 1000 < msPerMinute"
    using assms by (simp_all add: msPerMinute_def)
  ultimately have "MakeDate dy (MakeTime h mi s 0) div msPerMinute = 60 * q + mi"
    by (rule int_div_pos_eq)
  moreover have "(60 * q + mi) mod 60 = mi"
    using refl assms(3) by (rule int_mod_pos_eq) (use assms(4) in simp)
  ultimately show ?thesis by (simp only: MinFromTime_def)
qed

lemma SecFromTime_MakeDate:
  assumes "0 \<le> h" "h \<le> 23" "0 \<le> mi" "mi \<le> 59" "0 \<le> s" "s \<le> 59"
  shows "SecFromTime (MakeDate dy (MakeTime h mi s 0)) = s"
proof -
  define q where "q = 60 * (24 * dy + h) + mi"
  have "MakeDate dy (MakeTime h mi s 0) = msPerSecond * (60 * q + s) + 0"
    by (simp add: MakeDate_def MakeTime_def msPerDay_def msPerHour_def msPerMinute_def
        msPerSecond_def algebra_simps q_def)
  moreover have "(0::int) \<le> 0" "0 < msPerSecond"
    by (simp_all add: msPerSecond_def)
  ultimately have "MakeDate dy (MakeTime h mi s 0) div msPerSecond = 60 * q + s"
    by (rule int_div_pos_eq)
  moreover have "(60 * q + s) mod 60 = s"
    using refl assms(5) by (rule int_mod_pos_eq) (use assms(6) in simp)
  ultimately show ?thesis by (simp only: SecFromTime_def)
qed

lemma month_index_cases:
  "0 \<le> m \<Longrightarrow> m \<le> 11 \<Longrightarrow>
     m = 0 \<or> m = 1 \<or> m = 2 \<or> m = 3 \<or> m = 4 \<or> m = 5 \<or> m = 6 \<or> m = 7 \<or> m = 8 \<or> m = 9
       \<or> m = 10 \<or> m = (11::int)"
  by arith

lemma MakeDay_in_year:
  assumes "calendarDate y m d"
  shows "MakeDay y m d = DayFromYear y + (monthStart (if DaysInYear y = 366 then 1 else 0) m + d - 1)"
    and "0 \<le> monthStart (if DaysInYear y = 366 then 1 else 0) m + d - 1"
    and "monthStart (if DaysInYear y = 366 then 1 else 0) m + d - 1 < DaysInYear y"
proof -
  from assms have m: "0 \<le> m" "m \<le> 11" and d: "1 \<le> d" "d \<le> DaysInMonth y m"
    by (simp_all add: calendarDate_def)
  from m have "m div 12 = 0" "m mod 12 = m" by simp_all
  then show "MakeDay y m d = DayFromYear y + (monthStart (if DaysInYear y = 366 then 1 else 0) m + d - 1)"
    by (simp add: MakeDay_def Let_def)
  have yr: "DaysInYear y = 365 \<or> DaysInYear y = 366" by (simp add: DaysInYear_def)
  show "0 \<le> monthStart (if DaysInYear y = 366 then 1 else 0) m + d - 1"
    using d(1) by (simp add: monthStart_def)
  show "monthStart (if DaysInYear y = 366 then 1 else 0) m + d - 1 < DaysInYear y"
    using month_index_cases[OF m] d(2) yr
    by (elim disjE) (simp_all add: monthStart_def DaysInMonth_def)
qed

lemma YearFromTime_MakeDate:
  assumes "calendarDate y m d" "0 \<le> tm" "tm < msPerDay"
  shows "YearFromTime (MakeDate (MakeDay y m d) tm) = y"
proof -
  note md = MakeDay_in_year[OF assms(1)]
  have "DayFromYear y \<le> MakeDay y m d" using md(1,2) by simp
  moreover have "MakeDay y m d < DayFromYear (y + 1)"
    using md(1,3) by (simp add: DayFromYear_step)
  ultimately have "YearFromDay (MakeDay y m d) = y" by (rule YearFromDay_unique)
  then show ?thesis by (simp add: YearFromTime_def Day_MakeDate[OF assms(2,3)])
qed

lemma DayWithinYear_MakeDate:
  assumes "calendarDate y m d" "0 \<le> tm" "tm < msPerDay"
  shows "DayWithinYear (MakeDate (MakeDay y m d) tm)
           = monthStart (if DaysInYear y = 366 then 1 else 0) m + d - 1"
proof -
  have "DayWithinYear (MakeDate (MakeDay y m d) tm) = MakeDay y m d - DayFromYear y"
    by (simp only: DayWithinYear_def YearFromTime_MakeDate[OF assms] Day_MakeDate[OF assms(2,3)])
  also have "\<dots> = monthStart (if DaysInYear y = 366 then 1 else 0) m + d - 1"
    by (simp only: MakeDay_in_year(1)[OF assms(1)] add_diff_cancel_left')
  finally show ?thesis .
qed

lemma MonthFromTime_MakeDate:
  assumes "calendarDate y m d" "0 \<le> tm" "tm < msPerDay"
  shows "MonthFromTime (MakeDate (MakeDay y m d) tm) = m"
proof -
  from assms(1) have m: "0 \<le> m" "m \<le> 11" and d: "1 \<le> d" "d \<le> DaysInMonth y m"
    by (simp_all add: calendarDate_def)
  have yr: "DaysInYear y = 365 \<or> DaysInYear y = 366" by (simp add: DaysInYear_def)
  show ?thesis
    unfolding MonthFromTime_def DayWithinYear_MakeDate[OF assms] InLeapYear_def
      YearFromTime_MakeDate[OF assms] Let_def
    using month_index_cases[OF m] d yr
    by (elim disjE) (simp_all add: monthStart_def DaysInMonth_def)
qed

lemma DateFromTime_MakeDate:
  assumes "calendarDate y m d" "0 \<le> tm" "tm < msPerDay"
  shows "DateFromTime (MakeDate (MakeDay y m d) tm) = d"
proof -
  from assms(1) have m: "0 \<le> m" "m \<le> 11"
    by (simp_all add: calendarDate_def)
  show ?thesis
    unfolding DateFromTime_def DayWithinYear_MakeDate[OF assms] InLeapYear_def
      YearFromTime_MakeDate[OF assms] MonthFromTime_MakeDate[OF assms] Let_def
    using month_index_cases[OF m]
    by (elim disjE) (simp_all add: monthStart_def)
qed

section \<open>The serializer\<close>

lemma replaceAll_concat_map:
  "replaceAll c r (concat (map f s)) = concat (map (\<lambda>x. replaceAll c r (f x)) s)"
  by (induction s) (simp_all add: replaceAll_def)

lemma escapeICSValue_chars: "escapeICSValue s = concat (map escapeChar s)"
proof -
  have one: "replaceAll backslash [backslash, backslash] s
               = concat (map (\<lambda>x. if x = backslash then [backslash, backslash] else [x]) s)"
    by (simp add: replaceAll_def)
  have each: "replaceAll newline [backslash, CHR ''n'']
                (replaceAll CHR '','' [backslash, CHR '','']
                  (replaceAll CHR '';'' [backslash, CHR '';'']
                    (if x = backslash then [backslash, backslash] else [x]))) = escapeChar x" for x
    by (simp add: replaceAll_def escapeChar_def backslash_def newline_def)
  show ?thesis
    unfolding escapeICSValue_def one replaceAll_concat_map each ..
qed

lemma decode_plain: "c \<noteq> backslash \<Longrightarrow> decodeICSValue (c # r) = c # decodeICSValue r"
  by (cases r) simp_all

lemma decode_escapeChar: "decodeICSValue (escapeChar x @ r) = x # decodeICSValue r"
  by (simp add: escapeChar_def decode_plain) (simp add: backslash_def newline_def)

lemma decode_escaped_chars: "decodeICSValue (concat (map escapeChar s)) = s"
  by (induction s) (simp_all add: decode_escapeChar)

lemma decode_escapeICSValue: "decodeICSValue (escapeICSValue s) = s"
  by (simp add: escapeICSValue_chars decode_escaped_chars)

text \<open>
  C5. Escaping replaces the backslash first, then the semicolon, the comma and the line
  feed; reading the escaped value back gives the original string, for every string, so
  that two different strings never have the same escaped value.
\<close>

theorem escapeICSValue_invertible:
  "decodeICSValue (escapeICSValue s) = s
   \<and> (escapeICSValue s = escapeICSValue t \<longrightarrow> s = t)"
proof (intro conjI impI)
  show "decodeICSValue (escapeICSValue s) = s" by (rule decode_escapeICSValue)
  assume "escapeICSValue s = escapeICSValue t"
  then have "decodeICSValue (escapeICSValue s) = decodeICSValue (escapeICSValue t)" by simp
  then show "s = t" by (simp only: decode_escapeICSValue)
qed

theorem escapeICSValue_invertible_witness:
  "escapeICSValue [CHR ''a'', CHR '';'', CHR '','', backslash, newline, CHR ''n'']
     = [CHR ''a'', backslash, CHR '';'', backslash, CHR '','', backslash, backslash,
        backslash, CHR ''n'', CHR ''n'']
   \<and> decodeICSValue [CHR ''a'', backslash, CHR '';'', backslash, CHR '','', backslash, backslash,
        backslash, CHR ''n'', CHR ''n'']
     = [CHR ''a'', CHR '';'', CHR '','', backslash, newline, CHR ''n'']"
proof -
  have e: "escapeICSValue [CHR ''a'', CHR '';'', CHR '','', backslash, newline, CHR ''n'']
     = [CHR ''a'', backslash, CHR '';'', backslash, CHR '','', backslash, backslash,
        backslash, CHR ''n'', CHR ''n'']"
    by code_simp
  from escapeICSValue_invertible[of "[CHR ''a'', CHR '';'', CHR '','', backslash, newline, CHR ''n'']"
      "[CHR ''a'', CHR '';'', CHR '','', backslash, newline, CHR ''n'']"]
  show ?thesis unfolding e by simp
qed

text \<open>
  C10. For no events the serializer gives the envelope alone: the opening line, the five
  header lines and the closing line, each ended by carriage return and line feed.
\<close>

theorem generateCalendar_empty:
  "generateCalendar tz [] fmt =
     Inr (concat (map (\<lambda>l. l @ [CHR 0x0D, CHR 0x0A])
       [''BEGIN:VCALENDAR'',
        ''VERSION:2.0'',
        ''PRODID:-//Schedule to Calendar//Schedule Converter//EN'',
        ''CALSCALE:GREGORIAN'',
        ''METHOD:PUBLISH'',
        ''X-WR-CALNAME:Work Schedule'',
        ''END:VCALENDAR'']))"
  by (simp add: generateCalendar_def crlf_def)

theorem generateCalendar_empty_witness:
  "generateCalendar utcZone [] Apple =
     Inr (''BEGIN:VCALENDAR'' @ [CHR 0x0D, CHR 0x0A]
        @ ''VERSION:2.0'' @ [CHR 0x0D, CHR 0x0A]
        @ ''PRODID:-//Schedule to Calendar//Schedule Converter//EN'' @ [CHR 0x0D, CHR 0x0A]
        @ ''CALSCALE:GREGORIAN'' @ [CHR 0x0D, CHR 0x0A]
        @ ''METHOD:PUBLISH'' @ [CHR 0x0D, CHR 0x0A]
        @ ''X-WR-CALNAME:Work Schedule'' @ [CHR 0x0D, CHR 0x0A]
        @ ''END:VCALENDAR'' @ [CHR 0x0D, CHR 0x0A])"
  using generateCalendar_empty[of utcZone Apple] by simp

text \<open>
  C9. The format hint does not change the text: for the same events, \<^verbatim>\<open>outlook\<close> and
  \<^verbatim>\<open>apple\<close> give the same result (the same text, or the same exception).
\<close>

theorem generateCalendar_format_independent:
  "generateCalendar tz events Outlook = generateCalendar tz events Apple"
  by (simp add: generateCalendar_def)

theorem generateCalendar_format_independent_witness:
  "generateCalendar utcZone (parseEventsFromJSON utcZone noFallback
       [shift ''2026-01-10T15:00:00'' ''2026-01-10T22:00:00'' ''Coverage'']) Outlook
   = generateCalendar utcZone (parseEventsFromJSON utcZone noFallback
       [shift ''2026-01-10T15:00:00'' ''2026-01-10T22:00:00'' ''Coverage'']) Apple"
  using generateCalendar_format_independent[of utcZone "parseEventsFromJSON utcZone noFallback
       [shift ''2026-01-10T15:00:00'' ''2026-01-10T22:00:00'' ''Coverage'']"]
  by simp

text \<open>
  C6. The year is written as \<^verbatim>\<open>String(date.getFullYear())\<close>, without padding, while the
  comment of \<^verbatim>\<open>formatICSDateTime\<close> and the other five fields are for a fixed width. The
  example of the claim comes out as stated; a start in the year 999 is written with three
  digits for the year.
\<close>

theorem formatICSDateTime_year_not_padded:
  "generateCalendar utcZone (parseEventsFromJSON utcZone noFallback
       [shift ''2026-01-10T15:00:00'' ''2026-01-10T22:00:00'' ''Coverage'',
        shift ''0999-01-10T15:00:00'' ''0999-01-10T22:00:00'' ''Coverage'']) Outlook
   = Inr (concat (map (\<lambda>l. l @ [CHR 0x0D, CHR 0x0A])
       [''BEGIN:VCALENDAR'',
        ''VERSION:2.0'',
        ''PRODID:-//Schedule to Calendar//Schedule Converter//EN'',
        ''CALSCALE:GREGORIAN'',
        ''METHOD:PUBLISH'',
        ''X-WR-CALNAME:Work Schedule'',
        ''BEGIN:VEVENT'',
        ''DTSTART:20260110T150000'',
        ''DTEND:20260110T220000'',
        ''SUMMARY:Coverage'',
        ''END:VEVENT'',
        ''BEGIN:VEVENT'',
        ''DTSTART:9990110T150000'',
        ''DTEND:9990110T220000'',
        ''SUMMARY:Coverage'',
        ''END:VEVENT'',
        ''END:VCALENDAR'']))"
  by code_simp

section \<open>The normalizer\<close>

subsection \<open>What the pattern captures\<close>

lemma digitVal_range: "isDigit c \<Longrightarrow> 0 \<le> digitVal c \<and> digitVal c \<le> 9"
  by (auto simp add: isDigit_def digitVal_def)

lemma parseInt_snoc: "parseInt (s @ [c]) = 10 * parseInt s + digitVal c"
  by (simp add: parseInt_def)

lemma parseInt_bound:
  "list_all isDigit s \<Longrightarrow> 0 \<le> parseInt s \<and> parseInt s < 10 ^ length s"
proof (induction s rule: rev_induct)
  case Nil
  show ?case by (simp add: parseInt_def)
next
  case (snoc c s)
  then have ih: "0 \<le> parseInt s" "parseInt s < 10 ^ length s" and c: "isDigit c"
    by simp_all
  from ih(2) have "parseInt s + 1 \<le> 10 ^ length s" by simp
  then have "10 * (parseInt s + 1) \<le> 10 * 10 ^ length s" by simp
  with ih(1) digitVal_range[OF c] show ?case by (simp add: parseInt_snoc)
qed

lemma parseInt_2: "list_all isDigit s \<Longrightarrow> length s = 2 \<Longrightarrow> 0 \<le> parseInt s \<and> parseInt s \<le> 99"
  using parseInt_bound[of s] by simp

lemma parseInt_4: "list_all isDigit s \<Longrightarrow> length s = 4 \<Longrightarrow> 0 \<le> parseInt s \<and> parseInt s \<le> 9999"
  using parseInt_bound[of s] by simp

lemma strictMatch_captured:
  assumes "strictMatch s = Some m"
  obtains y mo d h mi se where "captured m = (y, mo, d, h, mi, se)"
    "0 \<le> y" "y \<le> 9999" "0 \<le> mo" "mo \<le> 99" "0 \<le> d" "d \<le> 99"
    "0 \<le> h" "h \<le> 99" "0 \<le> mi" "mi \<le> 99" "0 \<le> se" "se \<le> 99"
proof -
  from assms have len: "19 \<le> length s"
    and dg: "list_all isDigit (take 4 s)" "list_all isDigit (take 2 (drop 5 s))"
      "list_all isDigit (take 2 (drop 8 s))" "list_all isDigit (take 2 (drop 11 s))"
      "list_all isDigit (take 2 (drop 14 s))" "list_all isDigit (take 2 (drop 17 s))"
    and m: "m = [take 19 s, take 4 s, take 2 (drop 5 s), take 2 (drop 8 s),
                 take 2 (drop 11 s), take 2 (drop 14 s), take 2 (drop 17 s)]"
    by (simp_all add: strictMatch_def split: if_splits)
  have c: "captured m = (parseInt (take 4 s), parseInt (take 2 (drop 5 s)),
      parseInt (take 2 (drop 8 s)), parseInt (take 2 (drop 11 s)),
      parseInt (take 2 (drop 14 s)), parseInt (take 2 (drop 17 s)))"
    by (simp add: captured_def m)
  from len have l: "length (take 4 s) = 4" "length (take 2 (drop 5 s)) = 2"
    "length (take 2 (drop 8 s)) = 2" "length (take 2 (drop 11 s)) = 2"
    "length (take 2 (drop 14 s)) = 2" "length (take 2 (drop 17 s)) = 2"
    by simp_all
  show thesis
    using that[OF c] parseInt_4[OF dg(1) l(1)] parseInt_2[OF dg(2) l(2)] parseInt_2[OF dg(3) l(3)]
      parseInt_2[OF dg(4) l(4)] parseInt_2[OF dg(5) l(5)] parseInt_2[OF dg(6) l(6)]
    by blast
qed

lemma dateOfMatch_captured:
  "captured m = (y, mo, d, h, mi, se) \<Longrightarrow> dateOfMatch tz m = newDate tz y (mo - 1) d h mi se"
  by (simp add: captured_def dateOfMatch_def)

subsection \<open>Dates built from components\<close>

lemma DayFromYear_bound:
  assumes "0 \<le> y" "y \<le> 10100"
  shows "- 3000000 \<le> DayFromYear y" "DayFromYear y \<le> 3000000"
proof -
  define k where "k = y - 1970"
  have y: "y = 1970 + k" by (simp add: k_def)
  show "- 3000000 \<le> DayFromYear y"
  proof (cases "0 \<le> k")
    case True
    with DayFromYear_after_1970[of k] show ?thesis unfolding y by simp
  next
    case False
    then have "k \<le> 0" by simp
    from DayFromYear_before_1970[OF this] assms(1) show ?thesis unfolding y by simp
  qed
  show "DayFromYear y \<le> 3000000"
  proof (cases "0 \<le> k")
    case True
    with DayFromYear_after_1970[of k] assms(2) show ?thesis unfolding y by simp
  next
    case False
    then have "k \<le> 0" by simp
    from DayFromYear_before_1970[OF this] show ?thesis unfolding y by simp
  qed
qed

lemma monthStart_bound: "0 \<le> l \<Longrightarrow> l \<le> 1 \<Longrightarrow> 0 \<le> monthStart l m \<and> monthStart l m \<le> 335"
  by (simp add: monthStart_def)

lemma MakeDay_bound:
  assumes "100 \<le> y" "y \<le> 9999" "- 1 \<le> m" "m \<le> 98" "0 \<le> d" "d \<le> 99"
  shows "- 3001000 \<le> MakeDay y m d" "MakeDay y m d \<le> 3001000"
proof -
  have q: "- 1 \<le> m div 12" "m div 12 \<le> 8"
    using assms(3,4) by simp_all
  then have ym: "0 \<le> y + m div 12" "y + m div 12 \<le> 10100" using assms(1,2) by simp_all
  note b = DayFromYear_bound[OF ym]
  have ms: "0 \<le> monthStart (if DaysInYear (y + m div 12) = 366 then 1 else 0) (m mod 12)"
    "monthStart (if DaysInYear (y + m div 12) = 366 then 1 else 0) (m mod 12) \<le> 335"
    using monthStart_bound[of "if DaysInYear (y + m div 12) = 366 then 1 else 0" "m mod 12"]
    by simp_all
  show "- 3001000 \<le> MakeDay y m d" using b(1) ms(1) assms(5) by (simp add: MakeDay_def Let_def)
  show "MakeDay y m d \<le> 3001000" using b(2) ms(2) assms(6) by (simp add: MakeDay_def Let_def)
qed

lemma newDate_valid:
  assumes tz: "boundedOffsets tz"
    and "0 \<le> y" "y \<le> 9999" "0 \<le> mo" "mo \<le> 99" "0 \<le> d" "d \<le> 99"
    and "0 \<le> h" "h \<le> 99" "0 \<le> mi" "mi \<le> 99" "0 \<le> s" "s \<le> 99"
  shows "newDate tz y (mo - 1) d h mi s \<noteq> None"
proof -
  define yr where "yr = (if 0 \<le> y \<and> y \<le> 99 then 1900 + y else y)"
  define lt where "lt = MakeDate (MakeDay yr (mo - 1) d) (MakeTime h mi s 0)"
  have yr: "100 \<le> yr" "yr \<le> 9999" using assms(2,3) by (auto simp add: yr_def)
  have m: "- 1 \<le> mo - 1" "mo - 1 \<le> 98" using assms(4,5) by simp_all
  note b = MakeDay_bound[OF yr m assms(6,7)]
  have t: "0 \<le> MakeTime h mi s 0" "MakeTime h mi s 0 \<le> 400000000"
    using assms(8-13) by (simp_all add: MakeTime_def msPerHour_def msPerMinute_def msPerSecond_def)
  from tz have "\<bar>offsetOfLocal tz lt\<bar> \<le> msPerDay" by (simp add: boundedOffsets_def)
  then have z: "- 86400000 \<le> offsetOfLocal tz lt" "offsetOfLocal tz lt \<le> 86400000"
    by (simp_all add: msPerDay_def)
  have l: "- 259286400000000 \<le> lt" "lt \<le> 259286800000000"
    using b t by (simp_all add: lt_def MakeDate_def msPerDay_def)
  have "\<bar>UTC tz lt\<bar> \<le> 8640000000000000"
    using l z by (simp add: UTC_def)
  then show ?thesis
    by (simp add: newDate_def Let_def yr_def[symmetric] lt_def[symmetric] TimeClip_def)
qed

lemma dateOfMatch_valid:
  assumes "boundedOffsets tz" "strictMatch s = Some m"
  shows "dateOfMatch tz m \<noteq> None"
proof -
  from assms(2) obtain y mo d h mi se where c: "captured m = (y, mo, d, h, mi, se)"
    and b: "0 \<le> y" "y \<le> 9999" "0 \<le> mo" "mo \<le> 99" "0 \<le> d" "d \<le> 99"
    "0 \<le> h" "h \<le> 99" "0 \<le> mi" "mi \<le> 99" "0 \<le> se" "se \<le> 99"
    by (rule strictMatch_captured)
  show ?thesis
    unfolding dateOfMatch_captured[OF c] using assms(1) b by (rule newDate_valid)
qed

subsection \<open>A date read back in the local zone\<close>

lemma newDate_wallClock:
  assumes tz: "boundedOffsets tz"
    and c: "calendarDateTime (y, mo, d, h, mi, s)"
    and y: "100 \<le> y" "y \<le> 9999"
    and ex: "existsInZone tz (localTimeOf (y, mo, d, h, mi, s))"
  shows "\<exists>t. newDate tz y (mo - 1) d h mi s = Some t \<and> wallClock tz t = (y, mo, d, h, mi, s)"
proof -
  from c have cd: "calendarDate y (mo - 1) d"
    and hms: "0 \<le> h" "h \<le> 23" "0 \<le> mi" "mi \<le> 59" "0 \<le> s" "s \<le> 59"
    by simp_all
  from cd have mo: "0 \<le> mo" "mo \<le> 99" and d: "0 \<le> d" "d \<le> 99"
    by (simp_all add: calendarDate_def DaysInMonth_def split: if_splits)
  define t where "t = UTC tz (MakeDate (MakeDay y (mo - 1) d) (MakeTime h mi s 0))"
  have "newDate tz y (mo - 1) d h mi s \<noteq> None"
    using tz _ y(2) mo d hms(1) _ hms(3) _ hms(5) by (rule newDate_valid) (use y hms in simp_all)
  moreover have "newDate tz y (mo - 1) d h mi s = TimeClip t"
    using y(1) by (simp add: newDate_def t_def)
  ultimately have n: "newDate tz y (mo - 1) d h mi s = Some t"
    by (simp add: TimeClip_def split: if_splits)
  have l: "LocalTime tz t = MakeDate (MakeDay y (mo - 1) d) (MakeTime h mi s 0)"
    using ex by (simp add: existsInZone_def t_def)
  note tm = MakeTime_range[OF hms]
  have "wallClock tz t = (y, mo, d, h, mi, s)"
    unfolding wallClock_def getFullYear_def getMonth_def getDate_def getHours_def
      getMinutes_def getSeconds_def l
    by (simp add: YearFromTime_MakeDate[OF cd tm] MonthFromTime_MakeDate[OF cd tm]
        DateFromTime_MakeDate[OF cd tm] HourFromTime_MakeDate[OF hms]
        MinFromTime_MakeDate[OF hms] SecFromTime_MakeDate[OF hms])
  with n show ?thesis by blast
qed

lemma dateOfMatch_wallClock:
  assumes "boundedOffsets tz" "strictMatch s = Some m"
    and "calendarDateTime (captured m)" "100 \<le> fst (captured m)"
    and "existsInZone tz (localTimeOf (captured m))"
  shows "\<exists>t. dateOfMatch tz m = Some t \<and> wallClock tz t = captured m"
proof -
  from assms(2) obtain y mo d h mi se where c: "captured m = (y, mo, d, h, mi, se)"
    and b: "y \<le> 9999"
    by (rule strictMatch_captured)
  from assms(3,4,5) have "calendarDateTime (y, mo, d, h, mi, se)" "100 \<le> y"
    "existsInZone tz (localTimeOf (y, mo, d, h, mi, se))"
    by (simp_all add: c)
  from newDate_wallClock[OF assms(1) this(1,2) b this(3)] show ?thesis
    by (simp add: dateOfMatch_captured[OF c] c)
qed

lemma boundedOffsets_fixedZone: "\<bar>off\<bar> \<le> msPerDay \<Longrightarrow> boundedOffsets (fixedZone off)"
  by (simp add: boundedOffsets_def fixedZone_def)

lemma existsInZone_fixedZone: "existsInZone (fixedZone off) t"
  by (simp add: existsInZone_def LocalTime_def UTC_def fixedZone_def)

lemma wallClock_calendar: "calendarDateTime (wallClock tz t)"
  using MonthFromTime_range[of "LocalTime tz t"] DateFromTime_range[of "LocalTime tz t"]
    time_fields_range[of "LocalTime tz t"]
  by (simp add: wallClock_def calendarDate_def getFullYear_def getMonth_def getDate_def
      getHours_def getMinutes_def getSeconds_def)

subsection \<open>One record\<close>

lemma getProp_string_object: "getProp r k = Inr (JStr s) \<Longrightarrow> \<exists>kvs. r = JObj kvs"
  by (cases r) simp_all

lemma pushed_object:
  "\<exists>ev. pushed (JObj kvs) a b = Inr (Some ev) \<and> start ev = a \<and> end_date ev = b"
  by (simp add: pushed_def bindE_def)

lemma loopBody_strings:
  assumes "getProp r ''start'' = Inr (JStr s)" "getProp r ''end'' = Inr (JStr e)"
  shows "loopBody tz dp r =
           (case recordDates tz dp s e of (Some a, Some b) \<Rightarrow> pushed r a b | _ \<Rightarrow> Inr None)"
  using assms
  by (simp add: loopBody_def recordDates_def bindE_def split: option.splits prod.splits)

lemma loopBody_other:
  assumes "\<nexists>s e. getProp r ''start'' = Inr (JStr s) \<and> getProp r ''end'' = Inr (JStr e)"
  shows "\<exists>err. loopBody tz dp r = Inl err"
  using assms
  by (auto simp add: loopBody_def bindE_def split: sum.splits jsval.splits)

lemma parseLoop_events:
  "parseLoop tz dp rs events = events @ concat (map (recordEvents tz dp) rs)"
  by (induction rs arbitrary: events)
    (simp_all add: recordEvents_def split: sum.splits option.splits)

lemma parseEventsFromJSON_concat:
  "parseEventsFromJSON tz dp rs = concat (map (recordEvents tz dp) rs)"
  by (simp add: parseEventsFromJSON_def parseLoop_events)

lemma parseEventsFromJSON_single: "parseEventsFromJSON tz dp [r] = recordEvents tz dp r"
  by (simp add: parseEventsFromJSON_concat)

lemma recordEvents_strings:
  assumes "getProp r ''start'' = Inr (JStr s)" "getProp r ''end'' = Inr (JStr e)"
  shows "case recordDates tz dp s e of
           (Some a, Some b) \<Rightarrow> (\<exists>ev. recordEvents tz dp r = [ev] \<and> start ev = a \<and> end_date ev = b)
         | _ \<Rightarrow> recordEvents tz dp r = []"
proof -
  from assms(1) obtain kvs where r: "r = JObj kvs" using getProp_string_object by blast
  show ?thesis
  proof (cases "recordDates tz dp s e")
    case (Pair x y)
    show ?thesis
    proof (cases "\<exists>a b. x = Some a \<and> y = Some b")
      case True
      then obtain a b where xy: "x = Some a" "y = Some b" by blast
      from pushed_object[of kvs a b] obtain ev where
        "pushed r a b = Inr (Some ev)" "start ev = a" "end_date ev = b" unfolding r by blast
      then show ?thesis
        by (simp add: recordEvents_def loopBody_strings[OF assms] Pair xy)
    next
      case False
      then show ?thesis
        by (auto simp add: recordEvents_def loopBody_strings[OF assms] Pair split: option.splits)
    qed
  qed
qed

lemma recordEvents_other:
  assumes "\<nexists>s e. getProp r ''start'' = Inr (JStr s) \<and> getProp r ''end'' = Inr (JStr e)"
  shows "recordEvents tz dp r = []"
  using loopBody_other[OF assms, of tz dp] by (auto simp add: recordEvents_def)

lemma recordEvents_origin:
  assumes "ev \<in> set (recordEvents tz dp r)"
  shows "\<exists>s e. getProp r ''start'' = Inr (JStr s) \<and> getProp r ''end'' = Inr (JStr e)
           \<and> recordDates tz dp s e = (Some (start ev), Some (end_date ev))"
proof (cases "\<exists>s e. getProp r ''start'' = Inr (JStr s) \<and> getProp r ''end'' = Inr (JStr e)")
  case False
  with recordEvents_other[of r tz dp] assms show ?thesis by simp
next
  case True
  then obtain s e where g: "getProp r ''start'' = Inr (JStr s)" "getProp r ''end'' = Inr (JStr e)"
    by blast
  from recordEvents_strings[OF g, of tz dp] assms
  have "recordDates tz dp s e = (Some (start ev), Some (end_date ev))"
    by (auto split: prod.splits option.splits)
  with g show ?thesis by blast
qed

subsection \<open>The batch\<close>

lemma sameStrategy_strings:
  assumes "sameStrategy dp r"
  shows "\<exists>s e. getProp r ''start'' = Inr (JStr s) \<and> getProp r ''end'' = Inr (JStr e)"
  using assms unfolding sameStrategy_def
  by (cases "getProp r ''start''"; cases "getProp r ''end''") (auto split: jsval.splits)

lemma recordEvents_kept:
  assumes "boundedOffsets tz"
  shows "length (recordEvents tz dp r) = (if sameStrategy dp r then 1 else 0)"
proof (cases "\<exists>s e. getProp r ''start'' = Inr (JStr s) \<and> getProp r ''end'' = Inr (JStr e)")
  case False
  with sameStrategy_strings[of dp r] have "\<not> sameStrategy dp r" by blast
  with recordEvents_other[of r tz dp] False show ?thesis by simp
next
  case True
  then obtain s e where g: "getProp r ''start'' = Inr (JStr s)" "getProp r ''end'' = Inr (JStr e)"
    by blast
  have v: "sameStrategy dp r \<longleftrightarrow>
      (strictMatch s \<noteq> None \<and> strictMatch e \<noteq> None) \<or> (dp s \<noteq> None \<and> dp e \<noteq> None)"
    by (simp add: sameStrategy_def g)
  note re = recordEvents_strings[OF g, of tz dp]
  show ?thesis
  proof (cases "strictMatch s \<noteq> None \<and> strictMatch e \<noteq> None")
    case True
    then obtain sm em where m: "strictMatch s = Some sm" "strictMatch e = Some em" by blast
    from dateOfMatch_valid[OF assms m(1)] dateOfMatch_valid[OF assms m(2)]
    obtain a b where "dateOfMatch tz sm = Some a" "dateOfMatch tz em = Some b" by blast
    then have "recordDates tz dp s e = (Some a, Some b)" by (simp add: recordDates_def m)
    with re True v show ?thesis by auto
  next
    case False
    then have rd: "recordDates tz dp s e = (dp s, dp e)"
      by (auto simp add: recordDates_def split: option.splits)
    show ?thesis
    proof (cases "dp s \<noteq> None \<and> dp e \<noteq> None")
      case True
      then obtain a b where "dp s = Some a" "dp e = Some b" by blast
      with re rd True v show ?thesis by auto
    next
      case nd: False
      with re rd have "recordEvents tz dp r = []" by (auto split: option.splits)
      with False nd v show ?thesis by simp
    qed
  qed
qed

lemma validRecord_strings:
  assumes "validRecord dp r"
  shows "\<exists>s e. getProp r ''start'' = Inr (JStr s) \<and> getProp r ''end'' = Inr (JStr e)"
  using assms unfolding validRecord_def
  by (cases "getProp r ''start''"; cases "getProp r ''end''") (auto split: jsval.splits)





text \<open>
  C1, as amended. A record whose \<^verbatim>\<open>start\<close> and \<^verbatim>\<open>end\<close> match the pattern, with
  captured numbers that are a date of the calendar and a time of the day, in a year from
  100 on, and a local time that exists in the zone, gives one event whose wall-clock year,
  month, day, hour, minute and second are the captured numbers. What follows the seconds in
  the string (a fraction, a zone suffix) is not read.
\<close>

theorem strict_pattern_keeps_wall_clock:
  assumes "boundedOffsets tz"
    and "getProp r ''start'' = Inr (JStr s)" and "getProp r ''end'' = Inr (JStr e)"
    and "strictMatch s = Some sm" and "strictMatch e = Some em"
    and "calendarDateTime (captured sm)" and "100 \<le> fst (captured sm)"
    and "existsInZone tz (localTimeOf (captured sm))"
    and "calendarDateTime (captured em)" and "100 \<le> fst (captured em)"
    and "existsInZone tz (localTimeOf (captured em))"
  shows "\<exists>ev. parseEventsFromJSON tz dateParse [r] = [ev]
            \<and> wallClock tz (start ev) = captured sm \<and> wallClock tz (end_date ev) = captured em"
proof -
  from dateOfMatch_wallClock[OF assms(1,4,6,7,8)] obtain a
    where a: "dateOfMatch tz sm = Some a" "wallClock tz a = captured sm" by blast
  from dateOfMatch_wallClock[OF assms(1,5,9,10,11)] obtain b
    where b: "dateOfMatch tz em = Some b" "wallClock tz b = captured em" by blast
  have "recordDates tz dateParse s e = (Some a, Some b)"
    by (simp add: recordDates_def assms(4,5) a(1) b(1))
  with recordEvents_strings[OF assms(2,3), of tz dateParse]
  obtain ev where "recordEvents tz dateParse r = [ev]" "start ev = a" "end_date ev = b"
    by auto
  with a(2) b(2) show ?thesis by (simp add: parseEventsFromJSON_single)
qed

theorem strict_pattern_keeps_wall_clock_witness:
  "boundedOffsets (fixedZone (- 18000000)) \<and>
   map (\<lambda>ev. (wallClock (fixedZone (- 18000000)) (start ev),
               wallClock (fixedZone (- 18000000)) (end_date ev)))
     (parseEventsFromJSON (fixedZone (- 18000000)) noFallback
        [shift ''2026-01-10T15:00:00Z'' ''2026-01-10T22:00:00.000+02:00'' ''Coverage''])
   = [((2026, 1, 10, 15, 0, 0), (2026, 1, 10, 22, 0, 0))]"
proof -
  let ?z = "fixedZone (- 18000000)"
  let ?s = "''2026-01-10T15:00:00Z''" and ?e = "''2026-01-10T22:00:00.000+02:00''"
  let ?sm = "[''2026-01-10T15:00:00'', ''2026'', ''01'', ''10'', ''15'', ''00'', ''00'']"
  let ?em = "[''2026-01-10T22:00:00'', ''2026'', ''01'', ''10'', ''22'', ''00'', ''00'']"
  have tz: "boundedOffsets ?z" by (simp add: boundedOffsets_fixedZone msPerDay_def)
  have g: "getProp (shift ?s ?e ''Coverage'') ''start'' = Inr (JStr ?s)"
    "getProp (shift ?s ?e ''Coverage'') ''end'' = Inr (JStr ?e)"
    by (simp_all add: shift_def)
  have m: "strictMatch ?s = Some ?sm" "strictMatch ?e = Some ?em" by code_simp+
  have c: "captured ?sm = (2026, 1, 10, 15, 0, 0)" "captured ?em = (2026, 1, 10, 22, 0, 0)"
    by code_simp+
  have v: "calendarDateTime (2026, 1, 10, 15, 0, 0)" "calendarDateTime (2026, 1, 10, 22, 0, 0)"
    by code_simp+
  from strict_pattern_keeps_wall_clock[OF tz g m _ _ existsInZone_fixedZone _ _
      existsInZone_fixedZone, of noFallback] c v
  obtain ev where "parseEventsFromJSON ?z noFallback [shift ?s ?e ''Coverage''] = [ev]"
    "wallClock ?z (start ev) = (2026, 1, 10, 15, 0, 0)"
    "wallClock ?z (end_date ev) = (2026, 1, 10, 22, 0, 0)"
    by auto
  with tz show ?thesis by simp
qed

text \<open>
  C1 as first stated, for every string that matches the pattern, fails where the captured
  numbers are not a date of the calendar, for a year below 100, and for a local time that
  a clock change skips: 30 February becomes 2 March, the year 0050 becomes 1950, and 2:30
  on the day the clocks go forward becomes 3:30.
\<close>

theorem strict_pattern_rolls_over:
  "captured (the (strictMatch ''2026-02-30T10:00:00'')) = (2026, 2, 30, 10, 0, 0)
   \<and> captured (the (strictMatch ''0050-01-10T15:00:00'')) = (50, 1, 10, 15, 0, 0)
   \<and> map (wallClock utcZone) (map start (parseEventsFromJSON utcZone noFallback
         [shift ''2026-02-30T10:00:00'' ''0050-01-10T15:00:00'' ''Coverage'']))
       = [(2026, 3, 2, 10, 0, 0)]
   \<and> map (wallClock utcZone) (map end_date (parseEventsFromJSON utcZone noFallback
         [shift ''2026-02-30T10:00:00'' ''0050-01-10T15:00:00'' ''Coverage'']))
       = [(1950, 1, 10, 15, 0, 0)]
   \<and> captured (the (strictMatch ''2026-03-08T02:30:00'')) = (2026, 3, 8, 2, 30, 0)
   \<and> map (wallClock springForward) (map start (parseEventsFromJSON springForward noFallback
         [shift ''2026-03-08T02:30:00'' ''2026-03-08T10:00:00'' ''Coverage'']))
       = [(2026, 3, 8, 3, 30, 0)]"
  by code_simp

text \<open>
  What the loop does with the dates it has built: every event of the output has the two
  dates read from the \<^verbatim>\<open>start\<close> and \<^verbatim>\<open>end\<close> of a record of the input; a record one of
  whose dates is the invalid date leaves no event; a record whose two dates are valid is
  kept, whatever their order.
\<close>

lemma kept_events_dates:
  "(\<forall>ev \<in> set (parseEventsFromJSON tz dp rs).
      (\<exists>r \<in> set rs. \<exists>s e. getProp r ''start'' = Inr (JStr s) \<and> getProp r ''end'' = Inr (JStr e)
            \<and> recordDates tz dp s e = (Some (start ev), Some (end_date ev))))
   \<and> (\<forall>r s e. getProp r ''start'' = Inr (JStr s) \<longrightarrow> getProp r ''end'' = Inr (JStr e) \<longrightarrow>
        fst (recordDates tz dp s e) = None \<or> snd (recordDates tz dp s e) = None \<longrightarrow>
          parseEventsFromJSON tz dp [r] = [])
   \<and> (\<forall>r s e a b. getProp r ''start'' = Inr (JStr s) \<longrightarrow> getProp r ''end'' = Inr (JStr e) \<longrightarrow>
        recordDates tz dp s e = (Some a, Some b) \<longrightarrow>
          (\<exists>ev. parseEventsFromJSON tz dp [r] = [ev] \<and> start ev = a \<and> end_date ev = b))"
proof (intro conjI ballI allI impI)
  fix ev assume "ev \<in> set (parseEventsFromJSON tz dp rs)"
  then obtain r where r: "r \<in> set rs" "ev \<in> set (recordEvents tz dp r)"
    by (auto simp add: parseEventsFromJSON_concat)
  from recordEvents_origin[OF r(2)] r(1)
  show "\<exists>r \<in> set rs. \<exists>s e. getProp r ''start'' = Inr (JStr s) \<and> getProp r ''end'' = Inr (JStr e)
            \<and> recordDates tz dp s e = (Some (start ev), Some (end_date ev))"
    by blast
next
  fix r s e
  assume g: "getProp r ''start'' = Inr (JStr s)" "getProp r ''end'' = Inr (JStr e)"
    and n: "fst (recordDates tz dp s e) = None \<or> snd (recordDates tz dp s e) = None"
  from recordEvents_strings[OF g, of tz dp] n
  show "parseEventsFromJSON tz dp [r] = []"
    by (auto simp add: parseEventsFromJSON_single split: prod.splits option.splits)
next
  fix r s e a b
  assume g: "getProp r ''start'' = Inr (JStr s)" "getProp r ''end'' = Inr (JStr e)"
    and d: "recordDates tz dp s e = (Some a, Some b)"
  from recordEvents_strings[OF g, of tz dp] d
  show "\<exists>ev. parseEventsFromJSON tz dp [r] = [ev] \<and> start ev = a \<and> end_date ev = b"
    by (simp add: parseEventsFromJSON_single)
qed

text \<open>
  The test after \<^verbatim>\<open>new Date(year, month, ...)\<close> never drops a record: the constructor
  carries numbers that are out of range over into the next month, day or hour, and the
  date is valid. So every record whose \<^verbatim>\<open>start\<close> and \<^verbatim>\<open>end\<close> match the pattern is kept.
\<close>

lemma pattern_matches_are_kept:
  assumes "boundedOffsets tz"
    and "getProp r ''start'' = Inr (JStr s)" and "getProp r ''end'' = Inr (JStr e)"
    and "strictMatch s \<noteq> None" and "strictMatch e \<noteq> None"
  shows "length (parseEventsFromJSON tz dp [r]) = 1"
proof -
  from assms(2-5) have "sameStrategy dp r" by (simp add: sameStrategy_def)
  with recordEvents_kept[OF assms(1), of dp r] show ?thesis
    by (simp add: parseEventsFromJSON_single)
qed

text \<open>
  C2. A record whose \<^verbatim>\<open>start\<close> and \<^verbatim>\<open>end\<close> are written as 30 February, which is no date
  of the calendar, is not dropped: it is kept as an event on 2 March. The \<^verbatim>\<open>isNaN\<close> test
  that follows the construction of the two dates is there to drop it, and does not.
\<close>

theorem invalid_calendar_date_is_kept:
  "captured (the (strictMatch ''2026-02-30T10:00:00'')) = (2026, 2, 30, 10, 0, 0)
   \<and> captured (the (strictMatch ''2026-02-30T18:00:00'')) = (2026, 2, 30, 18, 0, 0)
   \<and> \<not> calendarDateTime (2026, 2, 30, 10, 0, 0)
   \<and> \<not> calendarDateTime (2026, 2, 30, 18, 0, 0)
   \<and> map (wallClock utcZone) (map start (parseEventsFromJSON utcZone noFallback
         [shift ''2026-02-30T10:00:00'' ''2026-02-30T18:00:00'' ''Coverage'']))
       = [(2026, 3, 2, 10, 0, 0)]
   \<and> map (wallClock utcZone) (map end_date (parseEventsFromJSON utcZone noFallback
         [shift ''2026-02-30T10:00:00'' ''2026-02-30T18:00:00'' ''Coverage'']))
       = [(2026, 3, 2, 18, 0, 0)]"
  by code_simp




text \<open>
  C8, as amended. For a parsed reply other than \<^verbatim>\<open>null\<close>, no exception is raised and the
  events are those of the selected records: the array itself; of an object, the \<^verbatim>\<open>events\<close>
  field when it is an array, and the \<^verbatim>\<open>data\<close> field when it is an array and \<^verbatim>\<open>events\<close> is
  missing or falsy; none for any other value.
\<close>

theorem processImage_selects_records:
  assumes "parsed \<noteq> JNull" and "parsed \<noteq> JUndefined"
  shows "processImage tz dp (Parsed parsed) = Inr (parseEventsFromJSON tz dp (selectedRecords parsed))"
proof (cases parsed)
  case (JObj kvs)
  show ?thesis
    by (simp add: JObj processImage_def eventsDataOf_def bindE_def orElse_def dataRecords_def
        parseEventsFromJSON_def split: option.splits jsval.splits)
qed (use assms in \<open>simp_all add: processImage_def eventsDataOf_def bindE_def orElse_def
        parseEventsFromJSON_def\<close>)

theorem processImage_selects_records_witness:
  "processImage utcZone noFallback (Parsed (JObj [(''events'', JStr []),
       (''data'', JArr [shift ''2026-01-10T15:00:00'' ''2026-01-10T22:00:00'' ''Coverage''])]))
     = Inr (parseEventsFromJSON utcZone noFallback
         [shift ''2026-01-10T15:00:00'' ''2026-01-10T22:00:00'' ''Coverage''])
   \<and> processImage utcZone noFallback (Parsed (JStr ''no shifts found'')) = Inr []"
  using processImage_selects_records[of "JObj [(''events'', JStr []),
       (''data'', JArr [shift ''2026-01-10T15:00:00'' ''2026-01-10T22:00:00'' ''Coverage''])]"
       utcZone noFallback]
    processImage_selects_records[of "JStr ''no shifts found''" utcZone noFallback]
  by (simp add: dataRecords_def parseEventsFromJSON_def)

text \<open>
  C8 as first stated, for every parsed reply, fails for \<^verbatim>\<open>null\<close>, where reading
  \<^verbatim>\<open>events\<close> throws, and for an object whose \<^verbatim>\<open>events\<close> is truthy but no array: its
  \<^verbatim>\<open>data\<close> array is not looked at.
\<close>

theorem processImage_null_raises:
  "processImage utcZone noFallback (Parsed JNull) = Inl (Error ''Failed to parse AI response'')
   \<and> processImage utcZone noFallback (Parsed (JObj [(''events'', JStr ''none''),
         (''data'', JArr [shift ''2026-01-10T15:00:00'' ''2026-01-10T22:00:00'' ''Coverage''])]))
       = Inr []
   \<and> length (parseEventsFromJSON utcZone noFallback
         [shift ''2026-01-10T15:00:00'' ''2026-01-10T22:00:00'' ''Coverage'']) = 1"
  by code_simp

section \<open>Duplicates and order\<close>

lemma findIndexFrom_range: "findIndexFrom k p xs = - 1 \<or> int k \<le> findIndexFrom k p xs"
proof (induction xs arbitrary: k)
  case Nil
  show ?case by simp
next
  case (Cons x xs)
  from Cons[of "Suc k"] show ?case by auto
qed

lemma findIndexFrom_iff:
  "findIndexFrom k p xs = int (k + i) \<longleftrightarrow>
     i < length xs \<and> p (xs ! i) (k + i) \<and> (\<forall>j<i. \<not> p (xs ! j) (k + j))"
proof (induction xs arbitrary: k i)
  case Nil
  show ?case by simp
next
  case (Cons x xs)
  show ?case
  proof (cases i)
    case 0
    with findIndexFrom_range[of "Suc k" p xs] show ?thesis by auto
  next
    case (Suc i')
    have a: "(\<forall>j<Suc i'. \<not> p ((x # xs) ! j) (k + j))
              \<longleftrightarrow> \<not> p x k \<and> (\<forall>j<i'. \<not> p (xs ! j) (Suc k + j))"
      by (auto simp add: less_Suc_eq_0_disj)
    from Cons[of "Suc k" i'] show ?thesis unfolding Suc a by auto
  qed
qed

lemma filterFrom_nth:
  "filterFrom k q xs = map (\<lambda>i. xs ! i) (filter (\<lambda>i. q (xs ! i) (k + i)) [0..<length xs])"
proof (induction xs arbitrary: k)
  case Nil
  show ?case by simp
next
  case (Cons x xs)
  have u: "[0..<length (x # xs)] = 0 # map Suc [0..<length xs]"
    by (simp add: upt_conv_Cons map_Suc_upt del: upt_Suc)
  show ?case
    unfolding u by (simp add: Cons[of "Suc k"] filter_map comp_def)
qed

lemma strictEquals_refl: "strictEquals True v v"
  by (cases v) simp_all



lemma sameKey_self: "sameKey e i e i"
  by (simp add: sameKey_def strictEquals_refl)

lemma sameKey_other: "j \<noteq> i \<Longrightarrow> sameKey e i e' j = identicalTriple e' e"
  by (simp add: sameKey_def identicalTriple_def)

lemma kept_iff:
  assumes "i < length xs"
  shows "int i = findIndex (sameKey (xs ! i) i) xs \<longleftrightarrow> (\<forall>j<i. \<not> identicalTriple (xs ! j) (xs ! i))"
proof -
  have "int i = findIndex (sameKey (xs ! i) i) xs
          \<longleftrightarrow> (\<forall>j<i. \<not> sameKey (xs ! i) i (xs ! j) j)"
    using findIndexFrom_iff[of 0 "sameKey (xs ! i) i" xs i] assms
    by (auto simp add: findIndex_def sameKey_self)
  also have "\<dots> \<longleftrightarrow> (\<forall>j<i. \<not> identicalTriple (xs ! j) (xs ! i))"
    by (auto simp add: sameKey_other)
  finally show ?thesis .
qed

lemma uniqueEvents_nth:
  "uniqueEvents xs =
     map (\<lambda>i. xs ! i) (filter (\<lambda>i. \<forall>j<i. \<not> identicalTriple (xs ! j) (xs ! i)) [0..<length xs])"
proof -
  have "filter (\<lambda>i. int i = findIndex (sameKey (xs ! i) i) xs) [0..<length xs]
          = filter (\<lambda>i. \<forall>j<i. \<not> identicalTriple (xs ! j) (xs ! i)) [0..<length xs]"
    by (rule filter_cong) (simp_all add: kept_iff)
  then show ?thesis
    by (simp add: uniqueEvents_def filterIndexed_def filterFrom_nth)
qed





lemma strictEquals_primitive: "\<not> isObject v \<Longrightarrow> strictEquals b v w \<longleftrightarrow> v = w"
  by (cases v; cases w) simp_all

lemma identicalTriple_keyOf:
  "\<not> isObject (title a) \<Longrightarrow> identicalTriple a b \<longleftrightarrow> keyOf a = keyOf b"
  by (auto simp add: identicalTriple_def keyOf_def strictEquals_primitive)






lemma strictEquals_trans:
  "strictEquals False u v \<Longrightarrow> strictEquals False v w \<Longrightarrow> strictEquals False u w"
  by (cases u; cases v; cases w) simp_all

lemma identicalTriple_trans:
  "identicalTriple a b \<Longrightarrow> identicalTriple b c \<Longrightarrow> identicalTriple a c"
  by (auto simp add: identicalTriple_def intro: strictEquals_trans)

text \<open>
  Nothing but duplicates is lost: every collected event is kept, or a kept event before it
  is identical to it in \<^verbatim>\<open>(start, end, title)\<close>.
\<close>

lemma uniqueEvents_representative:
  assumes "i < length xs"
  shows "\<exists>j\<le>i. xs ! j \<in> set (uniqueEvents xs) \<and> (j = i \<or> identicalTriple (xs ! j) (xs ! i))"
  using assms
proof (induction i rule: less_induct)
  case (less i)
  show ?case
  proof (cases "\<forall>k<i. \<not> identicalTriple (xs ! k) (xs ! i)")
    case True
    with less.prems have "xs ! i \<in> set (uniqueEvents xs)"
      by (simp add: uniqueEvents_nth)
    then show ?thesis by blast
  next
    case False
    then obtain k where k: "k < i" "identicalTriple (xs ! k) (xs ! i)" by blast
    with less.prems have "k < length xs" by simp
    from less.IH[OF k(1) this] obtain j where
      j: "j \<le> k" "xs ! j \<in> set (uniqueEvents xs)" "j = k \<or> identicalTriple (xs ! j) (xs ! k)"
      by blast
    from j(3) k(2) have "identicalTriple (xs ! j) (xs ! i)"
      by (auto intro: identicalTriple_trans)
    with j(1,2) k(1) show ?thesis by (intro exI[of _ j]) simp
  qed
qed

text \<open>
  The sort only reorders: the sorted sequence has the same events, as many times, and
  events with the same \<^verbatim>\<open>start\<close> stay in the order they had.
\<close>

lemma sortByStart_permutes:
  "mset (sortByStart xs) = mset xs"
  "filter (\<lambda>e. start e = k) (sortByStart xs) = filter (\<lambda>e. start e = k) xs"
  by (simp_all add: sortByStart_def sort_key_stable)

text \<open>
  C4. An event is dropped exactly when an earlier event has the same
  \<^verbatim>\<open>(start, end, title)\<close>: what is kept, in order, are the events no earlier event is
  identical to in these three fields. Description and location play no part in the
  comparison; for a title that is a string it is the equality of the triples.
\<close>

theorem uniqueEvents_keeps_first:
  "uniqueEvents xs =
     map (\<lambda>i. xs ! i) (filter (\<lambda>i. \<forall>j<i. \<not> identicalTriple (xs ! j) (xs ! i)) [0..<length xs])
   \<and> identicalTriple a (b\<lparr>description := d, location := l\<rparr>) = identicalTriple a b
   \<and> identicalTriple (a\<lparr>description := d, location := l\<rparr>) b = identicalTriple a b
   \<and> (title a = JStr s \<longrightarrow> identicalTriple a b = (keyOf a = keyOf b))"
proof (intro conjI impI)
  show "uniqueEvents xs =
     map (\<lambda>i. xs ! i) (filter (\<lambda>i. \<forall>j<i. \<not> identicalTriple (xs ! j) (xs ! i)) [0..<length xs])"
    by (rule uniqueEvents_nth)
  show "identicalTriple a b = (keyOf a = keyOf b)" if "title a = JStr s"
    using that by (intro identicalTriple_keyOf) simp
qed (simp_all add: identicalTriple_def)

theorem uniqueEvents_keeps_first_witness:
  "uniqueEvents sampleEvents = [sampleEvents ! 0, sampleEvents ! 1, sampleEvents ! 3]
   \<and> title (sampleEvents ! 0) = JStr ''Shift''
   \<and> keyOf (sampleEvents ! 0) = keyOf (sampleEvents ! 2)
   \<and> identicalTriple (sampleEvents ! 0) (sampleEvents ! 2)
   \<and> description (sampleEvents ! 0) \<noteq> description (sampleEvents ! 2)
   \<and> location (sampleEvents ! 0) \<noteq> location (sampleEvents ! 2)"
proof -
  have c: "uniqueEvents sampleEvents = [sampleEvents ! 0, sampleEvents ! 1, sampleEvents ! 3]"
    "title (sampleEvents ! 0) = JStr ''Shift''"
    "keyOf (sampleEvents ! 0) = keyOf (sampleEvents ! 2)"
    "description (sampleEvents ! 0) \<noteq> description (sampleEvents ! 2)"
    "location (sampleEvents ! 0) \<noteq> location (sampleEvents ! 2)"
    by code_simp+
  from uniqueEvents_keeps_first[where xs = sampleEvents and a = "sampleEvents ! 0"
      and s = "''Shift''" and b = "sampleEvents ! 2"] c
  have "identicalTriple (sampleEvents ! 0) (sampleEvents ! 2)" by blast
  with c show ?thesis by simp
qed



section \<open>The handler as a whole\<close>

lemma imageLoop_events:
  "fst (imageLoop tz dp i replies allEvents errors)
     = allEvents @ concat (map (\<lambda>r. case processImage tz dp r of Inr evs \<Rightarrow> evs | Inl err \<Rightarrow> []) replies)"
  by (induction replies arbitrary: i allEvents errors) (simp_all split: sum.splits)

text \<open>
  A calendar file that the handler answers is the serialization of the collected events
  after the duplicate filter and the sort.
\<close>

lemma POST_calendar:
  assumes "POST tz dp req = CalendarFile text"
  shows "\<exists>fmt. generateCalendar tz
            (sortByStart (uniqueEvents (fst (imageLoop tz dp 0 (images req) [] [])))) fmt = Inr text"
  using assms
  by (auto simp add: POST_def split: if_splits option.splits prod.splits sum.splits)

text \<open>Two images with the same shift give one event.\<close>

lemma POST_two_images_one_event:
  "POST utcZone noFallback
     \<lparr> apiKeySet = True,
       images = [Parsed (JObj [(''events'', JArr [shift ''2026-02-01T09:00:00'' ''2026-02-01T17:00:00'' ''Shift''])]),
                 Parsed (JArr [shift ''2026-02-01T09:00:00'' ''2026-02-01T17:00:00'' ''Shift''])],
       format = Some ''apple'' \<rparr>
   = CalendarFile (concat (map (\<lambda>l. l @ [CHR 0x0D, CHR 0x0A])
       [''BEGIN:VCALENDAR'',
        ''VERSION:2.0'',
        ''PRODID:-//Schedule to Calendar//Schedule Converter//EN'',
        ''CALSCALE:GREGORIAN'',
        ''METHOD:PUBLISH'',
        ''X-WR-CALNAME:Work Schedule'',
        ''BEGIN:VEVENT'',
        ''DTSTART:20260201T090000'',
        ''DTEND:20260201T170000'',
        ''SUMMARY:Shift'',
        ''END:VEVENT'',
        ''END:VCALENDAR'']))"
  by code_simp

section \<open>The width of a timestamp\<close>

lemma digitsOf_1: "n < 10 \<Longrightarrow> digitsOf n = [digitChar n]"
  by (subst digitsOf.simps) simp

lemma digitsOf_2: "10 \<le> n \<Longrightarrow> n < 100 \<Longrightarrow> digitsOf n = [digitChar (n div 10), digitChar (n mod 10)]"
  by (subst digitsOf.simps) (simp add: digitsOf_1)

lemma digitsOf_3:
  "100 \<le> n \<Longrightarrow> n < 1000 \<Longrightarrow>
     digitsOf n = [digitChar (n div 100), digitChar (n div 10 mod 10), digitChar (n mod 10)]"
  by (subst digitsOf.simps) (simp add: digitsOf_2 div_mult2_eq[symmetric])

lemma digitsOf_4:
  "1000 \<le> n \<Longrightarrow> n < 10000 \<Longrightarrow>
     digitsOf n = [digitChar (n div 1000), digitChar (n div 100 mod 10),
                   digitChar (n div 10 mod 10), digitChar (n mod 10)]"
  by (subst digitsOf.simps) (simp add: digitsOf_3 div_mult2_eq[symmetric])

lemma padStart2_twoDigits:
  assumes "0 \<le> v" "v \<le> 99"
  shows "padStart2 (numberToString v) = twoDigits v"
proof (cases "v < 10")
  case True
  with assms have "nat v < 10" "nat v div 10 = 0" "nat v mod 10 = nat v" by simp_all
  with assms show ?thesis
    by (simp add: padStart2_def numberToString_def twoDigits_def digitsOf_1 digitChar_def)
next
  case False
  with assms have "10 \<le> nat v" "nat v < 100" by simp_all
  with assms show ?thesis
    by (simp add: padStart2_def numberToString_def twoDigits_def digitsOf_2)
qed

text \<open>
  For a date whose local year has four digits, the timestamp is the fixed-width form: four
  digits of the year, two of the month, two of the day, \<^verbatim>\<open>T\<close>, and two each of the hour,
  the minute and the second, read in the local zone; nothing follows.
\<close>

lemma formatICSDateTime_four_digit_year:
  assumes "wallClock tz t = (y, mo, d, h, mi, s)" "1000 \<le> y" "y \<le> 9999"
  shows "formatICSDateTime tz t =
           fourDigits y @ twoDigits mo @ twoDigits d @ ''T'' @ twoDigits h @ twoDigits mi @ twoDigits s"
proof -
  from wallClock_calendar[of tz t] assms(1)
  have c: "calendarDate y (mo - 1) d" "0 \<le> h" "h \<le> 23" "0 \<le> mi" "mi \<le> 59" "0 \<le> s" "s \<le> 59"
    by simp_all
  then have r: "0 \<le> mo" "mo \<le> 99" "0 \<le> d" "d \<le> 99"
    by (simp_all add: calendarDate_def DaysInMonth_def split: if_splits)
  from assms(1) have g: "getFullYear tz t = y" "getMonth tz t + 1 = mo" "getDate tz t = d"
    "getHours tz t = h" "getMinutes tz t = mi" "getSeconds tz t = s"
    by (simp_all add: wallClock_def)
  from assms(2,3) have "1000 \<le> nat y" "nat y < 10000" by simp_all
  then have y: "numberToString y = fourDigits y"
    using assms(2) by (simp add: numberToString_def fourDigits_def digitsOf_4)
  show ?thesis
    unfolding formatICSDateTime_def Let_def g y
    using r c(2-7) by (simp add: padStart2_twoDigits)
qed

end
